theory Spec2Isabelle
  imports Main "HOL-Library.Sublist"
begin

section \<open>Go string primitives used by package gsm\<close>

text \<open>
  Go strings are byte sequences; they are modelled as \<open>string\<close> (a list of 8-bit
  characters).

  \<open>strings.TrimSpace\<close> removes the leading and the trailing runes for which
  \<open>unicode.IsSpace\<close> holds: the six ASCII white-space characters, U+0085, U+00A0,
  U+1680, U+2000 to U+200A, U+2028, U+2029, U+202F, U+205F and U+3000. \<open>whiteSpace\<close>
  lists their UTF-8 encodings. A valid encoding is the only byte sequence that decodes to
  its rune, and no encoding in the list is a prefix or a suffix of another, so the first
  (last) rune of a string is white space exactly when the string starts (ends) with one
  of these sequences; a byte that is not part of a valid encoding decodes to U+FFFD, which
  is not white space.
\<close>

definition whiteSpace :: "string list" where
  "whiteSpace =
     [[CHR 0x09], [CHR 0x0A], [CHR 0x0B], [CHR 0x0C], [CHR 0x0D], [CHR 0x20],
      [CHR 0xC2, CHR 0x85], [CHR 0xC2, CHR 0xA0],
      [CHR 0xE1, CHR 0x9A, CHR 0x80],
      [CHR 0xE2, CHR 0x80, CHR 0x80], [CHR 0xE2, CHR 0x80, CHR 0x81],
      [CHR 0xE2, CHR 0x80, CHR 0x82], [CHR 0xE2, CHR 0x80, CHR 0x83],
      [CHR 0xE2, CHR 0x80, CHR 0x84], [CHR 0xE2, CHR 0x80, CHR 0x85],
      [CHR 0xE2, CHR 0x80, CHR 0x86], [CHR 0xE2, CHR 0x80, CHR 0x87],
      [CHR 0xE2, CHR 0x80, CHR 0x88], [CHR 0xE2, CHR 0x80, CHR 0x89],
      [CHR 0xE2, CHR 0x80, CHR 0x8A],
      [CHR 0xE2, CHR 0x80, CHR 0xA8], [CHR 0xE2, CHR 0x80, CHR 0xA9],
      [CHR 0xE2, CHR 0x80, CHR 0xAF],
      [CHR 0xE2, CHR 0x81, CHR 0x9F],
      [CHR 0xE3, CHR 0x80, CHR 0x80]]"

text \<open>
  \<open>TrimLeft\<close> and \<open>TrimRight\<close> are \<open>strings.TrimLeftFunc\<close> and
  \<open>strings.TrimRightFunc\<close> at \<open>unicode.IsSpace\<close>; \<open>strings.TrimSpace\<close> is the second
  applied to the result of the first.
\<close>

function TrimLeft :: "string \<Rightarrow> string" where
  "TrimLeft s =
     (case find (\<lambda>w. prefix w s) whiteSpace of
        None \<Rightarrow> s
      | Some w \<Rightarrow> TrimLeft (drop (length w) s))"
  by pat_completeness auto
termination
proof (relation "measure length")
  show "wf (measure length)" by simp
next
  fix s w
  assume "find (\<lambda>w. prefix w s) whiteSpace = Some w"
  then have "w \<in> set whiteSpace" "prefix w s"
    by (auto simp: find_Some_iff)
  then have "w \<noteq> []" "length w \<le> length s"
    by (auto simp: whiteSpace_def prefix_length_le)
  then show "(drop (length w) s, s) \<in> measure length"
    by (cases w) auto
qed

function TrimRight :: "string \<Rightarrow> string" where
  "TrimRight s =
     (case find (\<lambda>w. suffix w s) whiteSpace of
        None \<Rightarrow> s
      | Some w \<Rightarrow> TrimRight (take (length s - length w) s))"
  by pat_completeness auto
termination
proof (relation "measure length")
  show "wf (measure length)" by simp
next
  fix s w
  assume "find (\<lambda>w. suffix w s) whiteSpace = Some w"
  then have "w \<in> set whiteSpace" "suffix w s"
    by (auto simp: find_Some_iff)
  then have "w \<noteq> []" "length w \<le> length s"
    by (auto simp: whiteSpace_def suffix_length_le)
  then show "(take (length s - length w) s, s) \<in> measure length"
    by (cases w) auto
qed

declare TrimLeft.simps [simp del]

declare TrimRight.simps [simp del]

definition TrimSpace :: "string \<Rightarrow> string" where
  "TrimSpace s = TrimRight (TrimLeft s)"

text \<open>
  What "\<open>k\<close> is \<open>s\<close> trimmed of surrounding white space" means: \<open>s\<close> is \<open>k\<close> between
  two runs of white-space characters, and \<open>k\<close> neither starts nor ends with one.
\<close>

definition isTrimOf :: "string \<Rightarrow> string \<Rightarrow> bool" where
  "isTrimOf k s \<longleftrightarrow>
     (\<exists>ls rs. set ls \<subseteq> set whiteSpace \<and> set rs \<subseteq> set whiteSpace
              \<and> s = concat ls @ k @ concat rs)
     \<and> (\<forall>w \<in> set whiteSpace. \<not> prefix w k \<and> \<not> suffix w k)"

definition HasPrefix :: "string \<Rightarrow> string \<Rightarrow> bool" where
  "HasPrefix s p = prefix p s"

text \<open>\<open>strings.CutPrefix\<close>: the remainder and \<open>True\<close>, or the input and \<open>False\<close>.\<close>

definition CutPrefix :: "string \<Rightarrow> string \<Rightarrow> string \<times> bool" where
  "CutPrefix s p = (if HasPrefix s p then (drop (length p) s, True) else (s, False))"

definition TrimPrefix :: "string \<Rightarrow> string \<Rightarrow> string" where
  "TrimPrefix s p = (if HasPrefix s p then drop (length p) s else s)"

text \<open>
  \<open>Cut s sep\<close> slices \<open>s\<close> around the first occurrence of \<open>sep\<close>
  (\<open>strings.Cut\<close>, with \<open>None\<close> for "not found"); \<open>Split\<close> and \<open>SplitN\<close> are built on
  it as Go's \<open>genSplit\<close> is built on \<open>strings.Index\<close>.
\<close>

fun Cut :: "string \<Rightarrow> string \<Rightarrow> (string \<times> string) option" where
  "Cut [] sep = (if sep = [] then Some ([], []) else None)"
| "Cut (c # cs) sep =
     (if prefix sep (c # cs) then Some ([], drop (length sep) (c # cs))
      else (case Cut cs sep of None \<Rightarrow> None | Some (a, b) \<Rightarrow> Some (c # a, b)))"

definition Contains :: "string \<Rightarrow> string \<Rightarrow> bool" where
  "Contains s sub = (Cut s sub \<noteq> None)"

text \<open>
  \<open>strings.SplitN s sep n\<close> for \<open>n \<ge> 0\<close> and a non-empty separator: at most \<open>n\<close>
  parts, the last one being the unsplit remainder.
\<close>

fun SplitN :: "string \<Rightarrow> string \<Rightarrow> nat \<Rightarrow> string list" where
  "SplitN s sep 0 = []"
| "SplitN s sep (Suc 0) = [s]"
| "SplitN s sep (Suc (Suc n)) =
     (case Cut s sep of None \<Rightarrow> [s] | Some (a, b) \<Rightarrow> a # SplitN b sep (Suc n))"

text \<open>
  \<open>strings.Split s sep\<close> for a non-empty separator: all parts. The fuel is the length
  of the string, which bounds the number of separators in it.
\<close>

fun SplitFuel :: "nat \<Rightarrow> string \<Rightarrow> string \<Rightarrow> string list" where
  "SplitFuel 0 s sep = [s]"
| "SplitFuel (Suc k) s sep =
     (case Cut s sep of None \<Rightarrow> [s] | Some (a, b) \<Rightarrow> a # SplitFuel k b sep)"

definition Split :: "string \<Rightarrow> string \<Rightarrow> string list" where
  "Split s sep = SplitFuel (length s) s sep"

text \<open>\<open>strings.Join\<close>, used to state what \<open>Split\<close> computes.\<close>

fun Join :: "string list \<Rightarrow> string \<Rightarrow> string" where
  "Join [] sep = []"
| "Join [x] sep = x"
| "Join (x # y # ys) sep = x @ sep @ Join (y # ys) sep"

section \<open>parser.go\<close>

definition SecretPrefix :: string where
  "SecretPrefix = ''sm://''"

definition DefaultSeparator :: string where
  "DefaultSeparator = ''||''"

record SecretRef =
  SecretName :: string
  DefaultValue :: string
  HasDefault :: bool
  IsSecretRef :: bool

text \<open>
  \<open>Parse\<close>. \<open>parts[0]\<close> is \<open>hd parts\<close>: \<open>SplitN\<close> with limit 2 never returns the
  empty list (lemma \<open>SplitN_two_cases\<close>), so the index is always in range.
\<close>

definition Parse :: "string \<Rightarrow> SecretRef" where
  "Parse value =
     (case CutPrefix value SecretPrefix of
        (after, found) \<Rightarrow>
          if \<not> found then
            \<lparr>SecretName = [], DefaultValue = value, HasDefault = True, IsSecretRef = False\<rparr>
          else
            (let parts = SplitN after DefaultSeparator 2;
                 ref = \<lparr>SecretName = TrimSpace (hd parts), DefaultValue = [],
                        HasDefault = False, IsSecretRef = True\<rparr>
             in if length parts = 2
                then ref\<lparr>DefaultValue := parts ! 1, HasDefault := True\<rparr>
                else ref))"

definition IsSecretReference :: "string \<Rightarrow> bool" where
  "IsSecretReference value = HasPrefix value SecretPrefix"

section \<open>errors.go\<close>

text \<open>
  The error values of the package. \<open>Errorf msg e\<close> is \<open>fmt.Errorf(msg + ": %w", e)\<close>;
  \<open>LibError\<close> is an error produced by the standard library (\<open>encoding/json\<close>,
  \<open>strconv\<close>) or by \<open>fmt.Errorf\<close> without a wrapped error.
\<close>

datatype error =
    SecretNotFoundError string
  | RequiredFieldError string string
  | InvalidFormatError string string
  | UnsupportedTypeError string string
  | ErrInvalidTarget
  | LibError string
  | Errorf string error

section \<open>client.go\<close>

text \<open>
  The secret-store client. \<open>access\<close> stands for the remote call
  \<open>AccessSecretVersion\<close>: the payload stored under a resource name, or \<open>None\<close> when the
  call fails for any reason.
\<close>

record Client =
  projectID :: string
  access :: "string \<Rightarrow> string option"

definition GetSecret :: "Client \<Rightarrow> string \<Rightarrow> error + string" where
  "GetSecret c secretName =
     (if secretName = [] then Inl (LibError ''secretName cannot be empty'')
      else (case access c (''projects/'' @ projectID c @ ''/secrets/'' @ secretName
                            @ ''/versions/latest'') of
              None \<Rightarrow> Inl (SecretNotFoundError secretName)
            | Some payload \<Rightarrow> Inr payload))"

section \<open>resolver.go\<close>

record Resolver =
  client :: "Client option"
  secretManagerEnabled :: bool
  envPrefix :: string

text \<open>
  The functional options. The package defines exactly two; each is a constructor, and
  \<open>applyOption\<close> is the call \<open>opt(r)\<close>.
\<close>

datatype ResolverOption = WithSecretManagerEnabled bool | WithEnvPrefix string

fun applyOption :: "ResolverOption \<Rightarrow> Resolver \<Rightarrow> Resolver" where
  "applyOption (WithSecretManagerEnabled enabled) r = r\<lparr>secretManagerEnabled := enabled\<rparr>"
| "applyOption (WithEnvPrefix p) r = r\<lparr>envPrefix := p\<rparr>"

definition NewResolver :: "Client option \<Rightarrow> ResolverOption list \<Rightarrow> Resolver" where
  "NewResolver c opts =
     fold applyOption opts
       \<lparr>client = c, secretManagerEnabled = (c \<noteq> None), envPrefix = []\<rparr>"

text \<open>
  The process environment is a partial map (\<open>os.LookupEnv\<close>). Every operation returns,
  beside its result, the list of external lookups it made, in order.
\<close>

type_synonym environ = "string \<Rightarrow> string option"

datatype event = LookupEnv string | CallGetSecret string

text \<open>The condition \<open>exists && envValue != ""\<close> of the environment tier.\<close>

definition envNonEmpty :: "environ \<Rightarrow> string \<Rightarrow> string option" where
  "envNonEmpty env k =
     (case env k of None \<Rightarrow> None | Some v \<Rightarrow> if v \<noteq> [] then Some v else None)"

definition Resolve :: "Resolver \<Rightarrow> environ \<Rightarrow> string \<Rightarrow> event list \<times> (error + string)" where
  "Resolve r env value =
     (let ref = Parse value in
      if \<not> IsSecretRef ref then ([], Inr (DefaultValue ref))
      else
        (let envKey = envPrefix r @ SecretName ref in
         case envNonEmpty env envKey of
           Some envValue \<Rightarrow> ([LookupEnv envKey], Inr envValue)
         | None \<Rightarrow>
             (let byDefault = (if HasDefault ref then Inr (DefaultValue ref)
                               else Inl (SecretNotFoundError (SecretName ref)))
              in case (if secretManagerEnabled r then client r else None) of
                   Some c \<Rightarrow>
                     (case GetSecret c (SecretName ref) of
                        Inr smValue \<Rightarrow>
                          ([LookupEnv envKey, CallGetSecret (SecretName ref)], Inr smValue)
                      | Inl err \<Rightarrow>
                          ([LookupEnv envKey, CallGetSecret (SecretName ref)], byDefault))
                 | None \<Rightarrow> ([LookupEnv envKey], byDefault))))"

text \<open>
  \<open>encoding/json\<close> is not part of the package: \<open>parseArrayValue\<close> takes the decoder
  \<open>json.Unmarshal\<close> (into a \<open>[]string\<close>) as a parameter, and every property below
  holds for any decoder.
\<close>

type_synonym json_decoder = "string \<Rightarrow> error + string list"

definition parseArrayValue :: "json_decoder \<Rightarrow> string \<Rightarrow> error + string list" where
  "parseArrayValue unmarshal raw =
     (let value = TrimSpace raw in
      if HasPrefix value ''['' then
        (case unmarshal value of
           Inl err \<Rightarrow> Inl (Errorf ''failed to parse JSON array'' err)
         | Inr arr \<Rightarrow> Inr arr)
      else if Contains value '','' then
        Inr (filter (\<lambda>trimmed. trimmed \<noteq> []) (map TrimSpace (Split value '','')))
      else if value \<noteq> [] then Inr [value]
      else Inr [])"

text \<open>The loop at the end of \<open>ResolveSlice\<close>, with its accumulator \<open>result\<close>.\<close>

fun resolveEach ::
  "Resolver \<Rightarrow> environ \<Rightarrow> string list \<Rightarrow> event list \<Rightarrow> string list
     \<Rightarrow> event list \<times> (error + string list)" where
  "resolveEach r env [] tr result = (tr, Inr result)"
| "resolveEach r env (v # vs) tr result =
     (case Resolve r env v of
        (t, Inl err) \<Rightarrow> (tr @ t, Inl err)
      | (t, Inr resolved) \<Rightarrow> resolveEach r env vs (tr @ t) (result @ [resolved]))"

definition ResolveSlice ::
  "json_decoder \<Rightarrow> Resolver \<Rightarrow> environ \<Rightarrow> string list
     \<Rightarrow> event list \<times> (error + string list)" where
  "ResolveSlice unmarshal r env vals =
     (if length vals = 0 then ([], Inr [])
      else if length vals = 1 \<and> IsSecretReference (vals ! 0) then
        (let ref = Parse (vals ! 0);
             envKey = envPrefix r @ SecretName ref in
         case envNonEmpty env envKey of
           Some envValue \<Rightarrow> ([LookupEnv envKey], parseArrayValue unmarshal envValue)
         | None \<Rightarrow>
             (let byDefault = (if HasDefault ref
                               then parseArrayValue unmarshal (DefaultValue ref)
                               else Inl (SecretNotFoundError (SecretName ref)))
              in case (if secretManagerEnabled r then client r else None) of
                   Some c \<Rightarrow>
                     (case GetSecret c (SecretName ref) of
                        Inr smValue \<Rightarrow>
                          ([LookupEnv envKey, CallGetSecret (SecretName ref)],
                           parseArrayValue unmarshal smValue)
                      | Inl err \<Rightarrow>
                          ([LookupEnv envKey, CallGetSecret (SecretName ref)], byDefault))
                 | None \<Rightarrow> ([LookupEnv envKey], byDefault)))
      else resolveEach r env vals [] [])"

section \<open>strconv\<close>

text \<open>
  \<open>strconv.ParseUint(s, 10, 64)\<close> and \<open>strconv.ParseInt(s, 10, 64)\<close>, as the loader calls
  them: decimal digits only (underscores are accepted by Go only for base 0), an optional
  sign for \<open>ParseInt\<close>, a syntax error on the first other character and a range error as
  soon as the value leaves 64 bits.
\<close>

definition isDigit :: "char \<Rightarrow> bool" where
  "isDigit c = (48 \<le> (of_char c :: nat) \<and> (of_char c :: nat) \<le> 57)"

definition ErrSyntax :: error where
  "ErrSyntax = LibError ''invalid syntax''"

definition ErrRange :: error where
  "ErrRange = LibError ''value out of range''"

fun parseDigits :: "nat \<Rightarrow> string \<Rightarrow> error + nat" where
  "parseDigits n [] = Inr n"
| "parseDigits n (c # cs) =
     (if \<not> isDigit c then Inl ErrSyntax
      else (let n1 = n * 10 + ((of_char c :: nat) - 48) in
            if n1 > 2 ^ 64 - 1 then Inl ErrRange else parseDigits n1 cs))"

definition ParseUint :: "string \<Rightarrow> error + nat" where
  "ParseUint s = (if s = [] then Inl ErrSyntax else parseDigits 0 s)"

definition ParseInt :: "string \<Rightarrow> error + int" where
  "ParseInt s0 =
     (if s0 = [] then Inl ErrSyntax
      else
        (let neg = (hd s0 = CHR ''-'');
             s = (if hd s0 = CHR ''+'' \<or> hd s0 = CHR ''-'' then tl s0 else s0)
         in case ParseUint s of
              Inl err \<Rightarrow> Inl err
            | Inr un \<Rightarrow>
                if \<not> neg \<and> un \<ge> 2 ^ 63 then Inl ErrRange
                else if neg \<and> un > 2 ^ 63 then Inl ErrRange
                else Inr (if neg then - int un else int un)))"

definition ParseBool :: "string \<Rightarrow> error + bool" where
  "ParseBool str =
     (if str \<in> set [''1'', ''t'', ''T'', ''TRUE'', ''true'', ''True''] then Inr True
      else if str \<in> set [''0'', ''f'', ''F'', ''FALSE'', ''false'', ''False''] then Inr False
      else Inl ErrSyntax)"

section \<open>loader.go\<close>

record tagInfo =
  secretName :: string
  defaultValue :: string
  hasDefault :: bool
  required :: bool

text \<open>One round of the loop of \<open>parseTag\<close>, on the segment \<open>parts[i]\<close>.\<close>

definition parseTagPart :: "string \<Rightarrow> tagInfo \<Rightarrow> tagInfo" where
  "parseTagPart p info =
     (let part = TrimSpace p in
      if part = ''required'' then info\<lparr>required := True\<rparr>
      else if HasPrefix part ''default='' then
        info\<lparr>defaultValue := TrimPrefix part ''default='', hasDefault := True\<rparr>
      else info)"

text \<open>
  \<open>parseTag\<close>. \<open>parts[0]\<close> is \<open>hd parts\<close> and the loop runs over \<open>parts[1:]\<close>;
  \<open>Split\<close> never returns the empty list (lemma \<open>Split_not_Nil\<close>).
\<close>

definition parseTag :: "string \<Rightarrow> tagInfo" where
  "parseTag tag =
     (let parts = Split tag '','';
          info = \<lparr>secretName = TrimSpace (hd parts), defaultValue = [],
                  hasDefault = False, required = False\<rparr>
      in fold parseTagPart (tl parts) info)"

text \<open>
  Reflection. A struct type is the list of its fields; a field has a name, a kind, the
  printed name of its type, whether it can be set (it is exported) and the value of its
  \<open>gsm\<close> tag (empty when the tag is absent). \<open>KOther\<close> stands for every kind the loader
  has no case for. \<open>KSlice KString\<close> is the type \<open>[]string\<close>; a named slice type and a
  slice of a named string type, on which \<open>reflect.Value.Set\<close> refuses the \<open>[]string\<close>
  that \<open>ResolveSlice\<close> returns, are not modelled.
\<close>

datatype Kind =
    KString
  | KInt | KInt8 | KInt16 | KInt32 | KInt64
  | KUint | KUint8 | KUint16 | KUint32 | KUint64
  | KFloat32 | KFloat64
  | KBool
  | KSlice Kind
  | KOther

record StructField =
  Name :: string
  kind :: Kind
  typeName :: string
  canSet :: bool
  gsmTag :: string

text \<open>
  Field values. Floating-point numbers are left abstract (type \<open>'f\<close>):
  \<open>strconv.ParseFloat\<close> and the conversion to \<open>float32\<close> are parameters of the loader,
  together with the JSON decoder.
\<close>

datatype 'f Value =
    VString string
  | VInt int
  | VUint nat
  | VFloat 'f
  | VBool bool
  | VStrings "string list"
  | VOther

record 'f Stdlib =
  jsonUnmarshal :: json_decoder
  ParseFloat :: "string \<Rightarrow> error + 'f"
  toFloat32 :: "'f \<Rightarrow> 'f"

fun isSignedKind :: "Kind \<Rightarrow> bool" where
  "isSignedKind KInt = True"
| "isSignedKind KInt8 = True"
| "isSignedKind KInt16 = True"
| "isSignedKind KInt32 = True"
| "isSignedKind KInt64 = True"
| "isSignedKind _ = False"

fun isUnsignedKind :: "Kind \<Rightarrow> bool" where
  "isUnsignedKind KUint = True"
| "isUnsignedKind KUint8 = True"
| "isUnsignedKind KUint16 = True"
| "isUnsignedKind KUint32 = True"
| "isUnsignedKind KUint64 = True"
| "isUnsignedKind _ = False"

text \<open>The width of an integer kind; \<open>int\<close> and \<open>uint\<close> have 64 bits on the modelled platform.\<close>

fun bitsOf :: "Kind \<Rightarrow> nat" where
  "bitsOf KInt8 = 8"
| "bitsOf KUint8 = 8"
| "bitsOf KInt16 = 16"
| "bitsOf KUint16 = 16"
| "bitsOf KInt32 = 32"
| "bitsOf KUint32 = 32"
| "bitsOf _ = 64"

text \<open>
  \<open>reflect.Value.SetInt\<close> and \<open>SetUint\<close> store the 64-bit argument converted to the
  field's type, which keeps the low bits (two's complement for the signed kinds).
\<close>

definition SetInt :: "Kind \<Rightarrow> int \<Rightarrow> 'f Value" where
  "SetInt k x = VInt ((x + 2 ^ (bitsOf k - 1)) mod 2 ^ bitsOf k - 2 ^ (bitsOf k - 1))"

definition SetUint :: "Kind \<Rightarrow> nat \<Rightarrow> 'f Value" where
  "SetUint k x = VUint (x mod 2 ^ bitsOf k)"

definition SetFloat :: "'f Stdlib \<Rightarrow> Kind \<Rightarrow> 'f \<Rightarrow> 'f Value" where
  "SetFloat lib k x = VFloat (if k = KFloat32 then toFloat32 lib x else x)"

text \<open>
  \<open>setField\<close> returns the error, or the value it stores in the field. The lookups of
  the resolver are not recorded at this level.
\<close>

definition setField ::
  "'f Stdlib \<Rightarrow> Resolver \<Rightarrow> environ \<Rightarrow> StructField \<Rightarrow> string \<Rightarrow> error + 'f Value" where
  "setField lib r env fieldType refString =
     (let k = kind fieldType in
      if k = KString then
        (case snd (Resolve r env refString) of
           Inl err \<Rightarrow> Inl err
         | Inr v \<Rightarrow> Inr (VString v))
      else if isSignedKind k then
        (case snd (Resolve r env refString) of
           Inl err \<Rightarrow> Inl err
         | Inr v \<Rightarrow>
             (case ParseInt v of
                Inl err \<Rightarrow> Inl (Errorf (''failed to parse int for field '' @ Name fieldType) err)
              | Inr intVal \<Rightarrow> Inr (SetInt k intVal)))
      else if isUnsignedKind k then
        (case snd (Resolve r env refString) of
           Inl err \<Rightarrow> Inl err
         | Inr v \<Rightarrow>
             (case ParseUint v of
                Inl err \<Rightarrow> Inl (Errorf (''failed to parse uint for field '' @ Name fieldType) err)
              | Inr uintVal \<Rightarrow> Inr (SetUint k uintVal)))
      else if k = KFloat32 \<or> k = KFloat64 then
        (case snd (Resolve r env refString) of
           Inl err \<Rightarrow> Inl err
         | Inr v \<Rightarrow>
             (case ParseFloat lib v of
                Inl err \<Rightarrow> Inl (Errorf (''failed to parse float for field '' @ Name fieldType) err)
              | Inr floatVal \<Rightarrow> Inr (SetFloat lib k floatVal)))
      else if k = KBool then
        (case snd (Resolve r env refString) of
           Inl err \<Rightarrow> Inl err
         | Inr v \<Rightarrow>
             (case ParseBool v of
                Inl err \<Rightarrow> Inl (Errorf (''failed to parse bool for field '' @ Name fieldType) err)
              | Inr boolVal \<Rightarrow> Inr (VBool boolVal)))
      else if k = KSlice KString then
        (case snd (ResolveSlice (jsonUnmarshal lib) r env [refString]) of
           Inl err \<Rightarrow> Inl err
         | Inr vs \<Rightarrow> Inr (VStrings vs))
      else Inl (UnsupportedTypeError (Name fieldType) (typeName fieldType)))"

text \<open>The reference string that \<open>loadStruct\<close> builds from a parsed tag.\<close>

definition refStringOf :: "tagInfo \<Rightarrow> string" where
  "refStringOf info =
     (if hasDefault info then ''sm://'' @ secretName info @ ''||'' @ defaultValue info
      else ''sm://'' @ secretName info)"

text \<open>
  \<open>loadStruct\<close> walks the fields in order. The struct is the list of its fields with
  their current values; the result is the struct as the call leaves it, and the returned
  error if any.
\<close>

type_synonym 'f struct = "(StructField \<times> 'f Value) list"

fun loadStruct ::
  "'f Stdlib \<Rightarrow> Resolver \<Rightarrow> environ \<Rightarrow> 'f struct \<Rightarrow> 'f struct \<times> error option" where
  "loadStruct lib r env [] = ([], None)"
| "loadStruct lib r env ((fieldType, v) # rest) =
     (let continue = (case loadStruct lib r env rest of
                        (rest', e) \<Rightarrow> ((fieldType, v) # rest', e)) in
      if \<not> canSet fieldType then continue
      else if gsmTag fieldType = [] \<or> gsmTag fieldType = ''-'' then continue
      else
        (let info = parseTag (gsmTag fieldType) in
         if secretName info = [] then continue
         else
           (case setField lib r env fieldType (refStringOf info) of
              Inl err \<Rightarrow>
                if required info
                then ((fieldType, v) # rest,
                      Some (RequiredFieldError (Name fieldType) (secretName info)))
                else continue
            | Inr v' \<Rightarrow>
                (case loadStruct lib r env rest of
                   (rest', e) \<Rightarrow> ((fieldType, v') # rest', e)))))"

record Loader =
  resolver :: Resolver

definition NewLoader :: "Client option \<Rightarrow> ResolverOption list \<Rightarrow> Loader" where
  "NewLoader c opts = \<lparr>resolver = NewResolver c opts\<rparr>"

text \<open>The target of \<open>Load\<close>: a pointer to a struct, or anything else.\<close>

datatype 'f Target = PtrToStruct "'f struct" | NotPtrToStruct

definition Load ::
  "'f Stdlib \<Rightarrow> Loader \<Rightarrow> environ \<Rightarrow> 'f Target \<Rightarrow> 'f Target \<times> error option" where
  "Load lib l env target =
     (case target of
        NotPtrToStruct \<Rightarrow> (NotPtrToStruct, Some ErrInvalidTarget)
      | PtrToStruct s \<Rightarrow>
          (case loadStruct lib (resolver l) env s of (s', e) \<Rightarrow> (PtrToStruct s', e)))"

section \<open>A JSON decoder for closed examples\<close>

text \<open>
  The properties of \<open>parseArrayValue\<close>, \<open>ResolveSlice\<close> and the loader hold for every
  decoder. Closed examples need one: \<open>jsonStringArray\<close> decodes an array of string
  literals (with the two-character escapes, and white space between the tokens) and
  fails on everything else, as \<open>json.Unmarshal\<close> into a \<open>[]string\<close> does on that
  fragment. It does not cover \<open>null\<close> elements and Unicode escapes, which Go accepts.
\<close>

definition unescape :: "char \<Rightarrow> char option" where
  "unescape e =
     (if e = CHR 0x22 \<or> e = CHR 0x5C \<or> e = CHR ''/'' then Some e
      else if e = CHR ''b'' then Some (CHR 0x08)
      else if e = CHR ''f'' then Some (CHR 0x0C)
      else if e = CHR ''n'' then Some (CHR 0x0A)
      else if e = CHR ''r'' then Some (CHR 0x0D)
      else if e = CHR ''t'' then Some (CHR 0x09)
      else None)"

fun jsonString :: "string \<Rightarrow> string \<Rightarrow> (string \<times> string) option" where
  "jsonString acc [] = None"
| "jsonString acc [c] = (if c = CHR 0x22 then Some (rev acc, []) else None)"
| "jsonString acc (c # e # cs) =
     (if c = CHR 0x22 then Some (rev acc, e # cs)
      else if c = CHR 0x5C then
        (case unescape e of None \<Rightarrow> None | Some d \<Rightarrow> jsonString (d # acc) cs)
      else if (of_char c :: nat) < 32 then None
      else jsonString (c # acc) (e # cs))"

definition isJSONSpace :: "char \<Rightarrow> bool" where
  "isJSONSpace c = (c = CHR '' '' \<or> c = CHR 0x09 \<or> c = CHR 0x0A \<or> c = CHR 0x0D)"

fun jsonElems :: "nat \<Rightarrow> string \<Rightarrow> error + string list" where
  "jsonElems 0 s = Inl (LibError ''unexpected end of JSON input'')"
| "jsonElems (Suc k) s =
     (case dropWhile isJSONSpace s of
        [] \<Rightarrow> Inl (LibError ''unexpected end of JSON input'')
      | q # cs \<Rightarrow>
          if q \<noteq> CHR 0x22 then Inl (LibError ''cannot unmarshal into Go value of type string'')
          else
            (case jsonString [] cs of
               None \<Rightarrow> Inl (LibError ''unexpected end of JSON input'')
             | Some (x, rest) \<Rightarrow>
                 (case dropWhile isJSONSpace rest of
                    [] \<Rightarrow> Inl (LibError ''unexpected end of JSON input'')
                  | d # rest' \<Rightarrow>
                      if d = CHR '','' then
                        (case jsonElems k rest' of Inl e \<Rightarrow> Inl e | Inr xs \<Rightarrow> Inr (x # xs))
                      else if d = CHR '']'' then
                        (if dropWhile isJSONSpace rest' = [] then Inr [x]
                         else Inl (LibError ''invalid character after top-level value''))
                      else Inl (LibError ''invalid character after array element''))))"

definition jsonStringArray :: json_decoder where
  "jsonStringArray s =
     (case dropWhile isJSONSpace s of
        [] \<Rightarrow> Inl (LibError ''unexpected end of JSON input'')
      | b # cs \<Rightarrow>
          if b \<noteq> CHR ''['' then Inl (LibError ''cannot unmarshal into Go value of type []string'')
          else
            (case dropWhile isJSONSpace cs of
               [] \<Rightarrow> Inl (LibError ''unexpected end of JSON input'')
             | d # rest \<Rightarrow>
                 if d = CHR '']'' then
                   (if dropWhile isJSONSpace rest = [] then Inr []
                    else Inl (LibError ''invalid character after top-level value''))
                 else jsonElems (length cs) cs))"

section \<open>Notions used in the statements\<close>

text \<open>
  Notions used to state the properties of the loader. A field is \<open>processed\<close> when
  \<open>loadStruct\<close> does not skip it: it can be set, its tag is neither absent nor \<open>-\<close>,
  and the key parsed from the tag is not empty. \<open>fieldResult\<close> is the call of \<open>setField\<close>
  that \<open>loadStruct\<close> makes for a processed field; \<open>failsRequired\<close> says that this
  call fails on a field whose tag has \<open>required\<close>; \<open>fieldAfter\<close> is a field with the
  value that one round of the loop leaves in it.
\<close>

definition processed :: "StructField \<Rightarrow> bool" where
  "processed ft \<longleftrightarrow>
     canSet ft \<and> gsmTag ft \<noteq> [] \<and> gsmTag ft \<noteq> ''-''
     \<and> secretName (parseTag (gsmTag ft)) \<noteq> []"

definition fieldResult ::
  "'f Stdlib \<Rightarrow> Resolver \<Rightarrow> environ \<Rightarrow> StructField \<Rightarrow> error + 'f Value" where
  "fieldResult lib r env ft = setField lib r env ft (refStringOf (parseTag (gsmTag ft)))"

definition failsRequired :: "'f Stdlib \<Rightarrow> Resolver \<Rightarrow> environ \<Rightarrow> StructField \<Rightarrow> bool" where
  "failsRequired lib r env ft \<longleftrightarrow>
     processed ft \<and> isl (fieldResult lib r env ft) \<and> required (parseTag (gsmTag ft))"

definition fieldAfter ::
  "'f Stdlib \<Rightarrow> Resolver \<Rightarrow> environ \<Rightarrow> StructField \<times> 'f Value
     \<Rightarrow> StructField \<times> 'f Value" where
  "fieldAfter lib r env fv =
     (case fv of
        (ft, v) \<Rightarrow>
          if processed ft then
            (case fieldResult lib r env ft of Inl err \<Rightarrow> (ft, v) | Inr v' \<Rightarrow> (ft, v'))
          else (ft, v))"

text \<open>
  Decimal notation, to state what \<open>ParseUint\<close> and \<open>ParseInt\<close> accept: a non-empty
  string of digits, and the number it denotes.
\<close>

definition allDigits :: "string \<Rightarrow> bool" where
  "allDigits s \<longleftrightarrow> s \<noteq> [] \<and> (\<forall>c \<in> set s. isDigit c)"

definition decimalValue :: "string \<Rightarrow> nat" where
  "decimalValue s = foldl (\<lambda>a c. a * 10 + ((of_char c :: nat) - 48)) 0 s"

section \<open>The data of the closed examples\<close>

text \<open>
  The standard library of the closed examples: the JSON decoder above, and a
  \<open>ParseFloat\<close> that accepts nothing (no example has a floating-point field).
\<close>

definition exampleLib :: "unit Stdlib" where
  "exampleLib = \<lparr>jsonUnmarshal = jsonStringArray, ParseFloat = (\<lambda>s. Inl ErrSyntax),
                  toFloat32 = (\<lambda>x. x)\<rparr>"

text \<open>
  The struct of the closed examples:
  \<^verbatim>\<open>Port int `gsm:"PORT"`\<close>, \<^verbatim>\<open>Host string `gsm:"HOST,default=localhost"`\<close>,
  \<^verbatim>\<open>Meta map[string]string `gsm:"META"`\<close>, \<^verbatim>\<open>APIKey string `gsm:"API_KEY,required"`\<close>,
  \<^verbatim>\<open>Later string `gsm:"LATER,default=z"`\<close> and \<^verbatim>\<open>Small int8 `gsm:"SMALL,default=300,required"`\<close>,
  loaded without a secret store from an environment where \<open>PORT\<close> is \<open>not_a_number\<close>.
\<close>

definition examplePort :: StructField where
  "examplePort = \<lparr>Name = ''Port'', kind = KInt, typeName = ''int'', canSet = True,
                   gsmTag = ''PORT''\<rparr>"





definition exampleSmall :: StructField where
  "exampleSmall = \<lparr>Name = ''Small'', kind = KInt8, typeName = ''int8'', canSet = True,
                    gsmTag = ''SMALL,default=300,required''\<rparr>"

definition exampleEnv :: environ where
  "exampleEnv = [''PORT'' \<mapsto> ''not_a_number'']"

definition exampleLoader :: Loader where
  "exampleLoader = NewLoader None [WithSecretManagerEnabled False]"

section \<open>Facts about the string primitives\<close>

lemma Cut_length:
  "Cut s sep = Some (a, b) \<Longrightarrow> length a + length sep + length b = length s"
proof (induction s arbitrary: a b)
  case Nil
  then show ?case by (auto split: if_splits)
next
  case (Cons c cs)
  show ?case
  proof (cases "prefix sep (c # cs)")
    case True
    with Cons.prems have "a = []" "b = drop (length sep) (c # cs)" by auto
    moreover from True have "length sep \<le> length (c # cs)" by (rule prefix_length_le)
    ultimately show ?thesis by simp
  next
    case False
    with Cons.prems obtain a' where c: "Cut cs sep = Some (a', b)" and a: "a = c # a'"
      by (auto split: option.splits)
    from Cons.IH [OF c] a show ?thesis by simp
  qed
qed

lemma SplitN_two_cases:
  "SplitN s sep 2 = (case Cut s sep of None \<Rightarrow> [s] | Some (a, b) \<Rightarrow> [a, b])"
  by (simp add: numeral_2_eq_2 split: option.splits)

text \<open>\<open>TrimSpace\<close> trims: its result is the argument without its surrounding white space.\<close>

lemma TrimLeft_decomp: "\<exists>ls. set ls \<subseteq> set whiteSpace \<and> s = concat ls @ TrimLeft s"
proof (induction s rule: TrimLeft.induct)
  case (1 s)
  show ?case
  proof (cases "find (\<lambda>w. prefix w s) whiteSpace")
    case None
    then have "TrimLeft s = s" by (simp add: TrimLeft.simps)
    then have "set [] \<subseteq> set whiteSpace \<and> s = concat [] @ TrimLeft s" by simp
    then show ?thesis by blast
  next
    case (Some w)
    then have w: "w \<in> set whiteSpace" "prefix w s" by (auto simp: find_Some_iff)
    from Some have t: "TrimLeft s = TrimLeft (drop (length w) s)"
      by (simp add: TrimLeft.simps)
    from "1.IH" [OF Some] obtain ls where
      ls: "set ls \<subseteq> set whiteSpace" "drop (length w) s = concat ls @ TrimLeft (drop (length w) s)"
      by blast
    from w(2) have "s = w @ drop (length w) s" by (auto simp: prefix_def)
    with ls(2) t have "s = concat (w # ls) @ TrimLeft s" by simp
    moreover from w(1) ls(1) have "set (w # ls) \<subseteq> set whiteSpace" by simp
    ultimately show ?thesis by blast
  qed
qed

lemma TrimLeft_no_prefix: "w \<in> set whiteSpace \<Longrightarrow> \<not> prefix w (TrimLeft s)"
proof (induction s rule: TrimLeft.induct)
  case (1 s)
  show ?case
  proof (cases "find (\<lambda>w. prefix w s) whiteSpace")
    case None
    then have "TrimLeft s = s" by (simp add: TrimLeft.simps)
    with None "1.prems" show ?thesis by (auto simp: find_None_iff)
  next
    case (Some v)
    then have "TrimLeft s = TrimLeft (drop (length v) s)" by (simp add: TrimLeft.simps)
    with "1.IH" [OF Some "1.prems"] show ?thesis by simp
  qed
qed

lemma TrimRight_decomp: "\<exists>rs. set rs \<subseteq> set whiteSpace \<and> s = TrimRight s @ concat rs"
proof (induction s rule: TrimRight.induct)
  case (1 s)
  show ?case
  proof (cases "find (\<lambda>w. suffix w s) whiteSpace")
    case None
    then have "TrimRight s = s" by (simp add: TrimRight.simps)
    then have "set [] \<subseteq> set whiteSpace \<and> s = TrimRight s @ concat []" by simp
    then show ?thesis by blast
  next
    case (Some w)
    then have w: "w \<in> set whiteSpace" "suffix w s" by (auto simp: find_Some_iff)
    from Some have t: "TrimRight s = TrimRight (take (length s - length w) s)"
      by (simp add: TrimRight.simps)
    from w(2) obtain p where p: "s = p @ w" by (auto simp: suffix_def)
    then have tk: "take (length s - length w) s = p" by simp
    from "1.IH" [OF Some] tk obtain rs where
      rs: "set rs \<subseteq> set whiteSpace" "TrimRight p @ concat rs = p"
      by metis
    from t tk have "TrimRight s @ concat (rs @ [w]) = (TrimRight p @ concat rs) @ w" by simp
    also have "\<dots> = s" using rs(2) p by simp
    finally have "s = TrimRight s @ concat (rs @ [w])" by simp
    moreover from w(1) rs(1) have "set (rs @ [w]) \<subseteq> set whiteSpace" by simp
    ultimately show ?thesis by blast
  qed
qed

lemma TrimRight_no_suffix: "w \<in> set whiteSpace \<Longrightarrow> \<not> suffix w (TrimRight s)"
proof (induction s rule: TrimRight.induct)
  case (1 s)
  show ?case
  proof (cases "find (\<lambda>w. suffix w s) whiteSpace")
    case None
    then have "TrimRight s = s" by (simp add: TrimRight.simps)
    with None "1.prems" show ?thesis by (auto simp: find_None_iff)
  next
    case (Some v)
    then have "TrimRight s = TrimRight (take (length s - length v) s)"
      by (simp add: TrimRight.simps)
    with "1.IH" [OF Some "1.prems"] show ?thesis by simp
  qed
qed

lemma TrimSpace_isTrimOf: "isTrimOf (TrimSpace s) s"
proof -
  obtain ls where ls: "set ls \<subseteq> set whiteSpace" "s = concat ls @ TrimLeft s"
    using TrimLeft_decomp by blast
  obtain rs where rs: "set rs \<subseteq> set whiteSpace" "TrimLeft s = TrimSpace s @ concat rs"
    using TrimRight_decomp [of "TrimLeft s"] by (auto simp: TrimSpace_def)
  from ls(2) rs(2) have "s = concat ls @ TrimSpace s @ concat rs" by simp
  with ls(1) rs(1) have a: "\<exists>ls rs. set ls \<subseteq> set whiteSpace \<and> set rs \<subseteq> set whiteSpace
              \<and> s = concat ls @ TrimSpace s @ concat rs" by blast
  have b: "\<forall>w \<in> set whiteSpace. \<not> prefix w (TrimSpace s) \<and> \<not> suffix w (TrimSpace s)"
  proof (intro ballI conjI)
    fix w assume w: "w \<in> set whiteSpace"
    show "\<not> prefix w (TrimSpace s)"
    proof
      assume "prefix w (TrimSpace s)"
      with rs(2) have "prefix w (TrimLeft s)" by (metis prefix_prefix)
      with TrimLeft_no_prefix [OF w] show False by blast
    qed
    show "\<not> suffix w (TrimSpace s)"
      using TrimRight_no_suffix [OF w] by (simp add: TrimSpace_def)
  qed
  from a b show ?thesis by (simp add: isTrimOf_def)
qed

section \<open>Properties of the reference parser\<close>

lemma Cut_None_iff: "Cut s sep = None \<longleftrightarrow> \<not> sublist sep s"
proof (induction s)
  case Nil
  then show ?case by auto
next
  case (Cons c cs)
  then show ?case
    by (auto simp: sublist_Cons_right split: option.splits)
qed

lemma Cut_first:
  assumes "sep \<noteq> []" "\<not> sublist sep (a @ butlast sep)"
  shows "Cut (a @ sep @ b) sep = Some (a, b)"
  using assms
proof (induction a)
  case Nil
  then show ?case by (cases sep) auto
next
  case (Cons c a)
  have np: "\<not> prefix sep (c # a @ sep @ b)"
  proof
    assume p: "prefix sep (c # a @ sep @ b)"
    have "c # a @ sep @ b = ((c # a) @ butlast sep) @ (last sep # b)"
      using Cons.prems(1) by simp
    with p have "prefix sep (((c # a) @ butlast sep) @ (last sep # b))" by simp
    moreover have "length sep \<le> length ((c # a) @ butlast sep)" by simp
    ultimately have "prefix sep ((c # a) @ butlast sep)"
      by (metis prefix_length_prefix prefixI prefix_order.dual_order.refl append_prefixD prefix_append)
    then show False using Cons.prems(2) prefix_imp_sublist by blast
  qed
  have "\<not> sublist sep (a @ butlast sep)"
    using Cons.prems(2) by (auto simp: sublist_Cons_right)
  with Cons.IH Cons.prems(1) have "Cut (a @ sep @ b) sep = Some (a, b)" by simp
  with np show ?case by simp
qed

lemma CutPrefix_append: "CutPrefix (p @ rest) p = (rest, True)"
  by (simp add: CutPrefix_def HasPrefix_def)

lemma Parse_prefixed:
  "Parse (SecretPrefix @ rest) =
     (case Cut rest DefaultSeparator of
        None \<Rightarrow> \<lparr>SecretName = TrimSpace rest, DefaultValue = [], HasDefault = False,
                 IsSecretRef = True\<rparr>
      | Some (a, b) \<Rightarrow> \<lparr>SecretName = TrimSpace a, DefaultValue = b, HasDefault = True,
                        IsSecretRef = True\<rparr>)"
  by (simp add: Parse_def CutPrefix_append SplitN_two_cases Let_def split: option.splits)

text \<open>
  Claim C8. For every expression that starts with the reference prefix, \<open>Parse\<close> splits
  the remainder on the first occurrence of the separator \<open>||\<close> only: if the separator
  does not occur earlier than after \<open>a\<close>, the key is \<open>a\<close> trimmed of surrounding white
  space (\<open>isTrimOf\<close>: \<open>a\<close> is the key between two runs of white-space characters, and
  the key neither starts nor ends with one) and the fallback is everything after that
  separator, untrimmed, whatever it contains; if the separator does not occur at all,
  the key is the trimmed remainder and there is no fallback; and \<open>HasDefault\<close> is true
  exactly when the separator occurs.
\<close>

theorem Parse_splits_on_first_separator:
  "(\<not> sublist DefaultSeparator (a @ ''|'') \<longrightarrow>
      Parse (SecretPrefix @ a @ DefaultSeparator @ b) =
        \<lparr>SecretName = TrimSpace a, DefaultValue = b, HasDefault = True, IsSecretRef = True\<rparr>
      \<and> isTrimOf (SecretName (Parse (SecretPrefix @ a @ DefaultSeparator @ b))) a)
   \<and> (\<not> sublist DefaultSeparator rest \<longrightarrow>
      Parse (SecretPrefix @ rest) =
        \<lparr>SecretName = TrimSpace rest, DefaultValue = [], HasDefault = False,
         IsSecretRef = True\<rparr>
      \<and> isTrimOf (SecretName (Parse (SecretPrefix @ rest))) rest)
   \<and> HasDefault (Parse (SecretPrefix @ rest)) = sublist DefaultSeparator rest"
proof (intro conjI impI)
  assume "\<not> sublist DefaultSeparator (a @ ''|'')"
  then have "\<not> sublist DefaultSeparator (a @ butlast DefaultSeparator)"
    by (simp add: DefaultSeparator_def)
  moreover have "DefaultSeparator \<noteq> []" by (simp add: DefaultSeparator_def)
  ultimately have "Cut (a @ DefaultSeparator @ b) DefaultSeparator = Some (a, b)"
    by (rule Cut_first [rotated])
  then show p: "Parse (SecretPrefix @ a @ DefaultSeparator @ b) =
        \<lparr>SecretName = TrimSpace a, DefaultValue = b, HasDefault = True, IsSecretRef = True\<rparr>"
    by (simp add: Parse_prefixed)
  show "isTrimOf (SecretName (Parse (SecretPrefix @ a @ DefaultSeparator @ b))) a"
    by (simp add: p TrimSpace_isTrimOf)
next
  assume "\<not> sublist DefaultSeparator rest"
  then have "Cut rest DefaultSeparator = None" by (simp add: Cut_None_iff)
  then show p: "Parse (SecretPrefix @ rest) =
        \<lparr>SecretName = TrimSpace rest, DefaultValue = [], HasDefault = False,
         IsSecretRef = True\<rparr>"
    by (simp add: Parse_prefixed)
  show "isTrimOf (SecretName (Parse (SecretPrefix @ rest))) rest"
    by (simp add: p TrimSpace_isTrimOf)
next
  show "HasDefault (Parse (SecretPrefix @ rest)) = sublist DefaultSeparator rest"
    using Cut_None_iff [of rest DefaultSeparator]
    by (auto simp: Parse_prefixed split: option.splits)
qed

lemma TrimSpace_ex1: "TrimSpace '' K '' = ''K''"
  by code_simp

lemma TrimSpace_ex2: "TrimSpace ''K'' = ''K''"
  by code_simp

lemma TrimSpace_ex3:
  "TrimSpace ([CHR 0xC2, CHR 0xA0] @ ''K'' @ [CHR 0xE2, CHR 0x80, CHR 0x8A, CHR 0x09]) = ''K''"
  by code_simp

theorem Parse_splits_on_first_separator_witness:
  "\<not> sublist DefaultSeparator ('' K '' @ ''|'')
   \<and> Parse (''sm:// K || x||y '') =
        \<lparr>SecretName = ''K'', DefaultValue = '' x||y '', HasDefault = True, IsSecretRef = True\<rparr>
   \<and> isTrimOf ''K'' '' K ''
   \<and> \<not> sublist DefaultSeparator
         (([CHR 0xC2, CHR 0xA0] @ ''K'' @ [CHR 0xE2, CHR 0x80, CHR 0x8A, CHR 0x09]) @ ''|'')
   \<and> Parse (''sm://'' @ ([CHR 0xC2, CHR 0xA0] @ ''K'' @ [CHR 0xE2, CHR 0x80, CHR 0x8A, CHR 0x09])
              @ ''||'' @ '' d'') =
        \<lparr>SecretName = ''K'', DefaultValue = '' d'', HasDefault = True, IsSecretRef = True\<rparr>
   \<and> \<not> sublist DefaultSeparator ''K''
   \<and> Parse ''sm://K'' =
        \<lparr>SecretName = ''K'', DefaultValue = [], HasDefault = False, IsSecretRef = True\<rparr>
   \<and> HasDefault (Parse ''sm://K||'') \<and> DefaultValue (Parse ''sm://K||'') = []"
proof -
  let ?u = "[CHR 0xC2, CHR 0xA0] @ ''K'' @ [CHR 0xE2, CHR 0x80, CHR 0x8A, CHR 0x09]"
  have n1: "\<not> sublist DefaultSeparator ('' K '' @ ''|'')"
    by (simp add: DefaultSeparator_def sublist_Cons_right)
  have n2: "\<not> sublist DefaultSeparator ''K''"
    by (simp add: DefaultSeparator_def sublist_Cons_right)
  have n3: "\<not> sublist DefaultSeparator (''K'' @ ''|'')"
    by (simp add: DefaultSeparator_def sublist_Cons_right)
  have n4: "\<not> sublist DefaultSeparator (?u @ ''|'')"
    by (simp add: DefaultSeparator_def sublist_Cons_right)
  have s3: "sublist DefaultSeparator ''K||''"
    by (simp add: DefaultSeparator_def sublist_Cons_right)
  note t1 = Parse_splits_on_first_separator [of "'' K ''" "'' x||y ''" "''K''"]
  note t2 = Parse_splits_on_first_separator [of "''K''" "[]" "''K||''"]
  note t3 = Parse_splits_on_first_separator [of ?u "'' d''" "''K''"]
  from t1 n1 have a0: "Parse (SecretPrefix @ '' K '' @ DefaultSeparator @ '' x||y '') =
        \<lparr>SecretName = TrimSpace '' K '', DefaultValue = '' x||y '', HasDefault = True, IsSecretRef = True\<rparr>
      \<and> isTrimOf (SecretName (Parse (SecretPrefix @ '' K '' @ DefaultSeparator @ '' x||y ''))) '' K ''"
    by blast
  then have a: "Parse (''sm:// K || x||y '') =
        \<lparr>SecretName = ''K'', DefaultValue = '' x||y '', HasDefault = True, IsSecretRef = True\<rparr>"
    by (simp add: SecretPrefix_def DefaultSeparator_def TrimSpace_ex1)
  from a0 have a': "isTrimOf ''K'' '' K ''"
    by (clarsimp simp: TrimSpace_ex1)
  from t3 n4 have "Parse (SecretPrefix @ ?u @ DefaultSeparator @ '' d'') =
        \<lparr>SecretName = TrimSpace ?u, DefaultValue = '' d'', HasDefault = True, IsSecretRef = True\<rparr>"
    by blast
  then have e: "Parse (''sm://'' @ ?u @ ''||'' @ '' d'') =
        \<lparr>SecretName = ''K'', DefaultValue = '' d'', HasDefault = True, IsSecretRef = True\<rparr>"
    by (simp only: SecretPrefix_def DefaultSeparator_def TrimSpace_ex3)
  from t1 n2 have "Parse (SecretPrefix @ ''K'') =
        \<lparr>SecretName = TrimSpace ''K'', DefaultValue = [], HasDefault = False,
         IsSecretRef = True\<rparr>" by blast
  then have b: "Parse ''sm://K'' =
        \<lparr>SecretName = ''K'', DefaultValue = [], HasDefault = False, IsSecretRef = True\<rparr>"
    by (simp add: SecretPrefix_def TrimSpace_ex2)
  from t2 s3 have c: "HasDefault (Parse ''sm://K||'')"
    by (simp add: SecretPrefix_def)
  from t2 n3 have "Parse (SecretPrefix @ ''K'' @ DefaultSeparator @ []) =
        \<lparr>SecretName = TrimSpace ''K'', DefaultValue = [], HasDefault = True, IsSecretRef = True\<rparr>"
    by blast
  then have d: "DefaultValue (Parse ''sm://K||'') = []"
    by (simp add: SecretPrefix_def DefaultSeparator_def)
  from n1 a a' n4 e n2 b c d show ?thesis by (intro conjI)
qed


text \<open>
  Claim C9. For every string \<open>s\<close> that does not start with the reference prefix,
  \<open>Parse s\<close> has an empty key, fallback \<open>s\<close>, \<open>HasDefault\<close> true and \<open>IsSecretRef\<close> false,
  and \<open>Resolve\<close> returns \<open>s\<close> itself without error and without any lookup in the
  environment or the secret store (its list of lookups is empty).
\<close>

theorem plain_value_is_literal:
  assumes "\<not> HasPrefix s SecretPrefix"
  shows "Parse s = \<lparr>SecretName = [], DefaultValue = s, HasDefault = True, IsSecretRef = False\<rparr>
         \<and> IsSecretReference s = False
         \<and> Resolve r env s = ([], Inr s)"
  using assms by (simp add: Parse_def CutPrefix_def Resolve_def IsSecretReference_def)

theorem plain_value_is_literal_witness:
  "\<not> HasPrefix ''plain_value'' SecretPrefix
   \<and> Parse ''plain_value'' =
       \<lparr>SecretName = [], DefaultValue = ''plain_value'', HasDefault = True, IsSecretRef = False\<rparr>
   \<and> Resolve (NewResolver None []) (\<lambda>k. None) ''plain_value'' = ([], Inr ''plain_value'')"
proof -
  have h: "\<not> HasPrefix ''plain_value'' SecretPrefix"
    by (simp add: HasPrefix_def SecretPrefix_def)
  from plain_value_is_literal [OF h, of "NewResolver None []" "\<lambda>k. None"] h
  show ?thesis by simp
qed

section \<open>Properties of the resolver\<close>

lemma IsSecretRef_Parse: "IsSecretRef (Parse value) = HasPrefix value SecretPrefix"
  by (simp add: Parse_def CutPrefix_def Let_def)

lemma envNonEmpty_Some: "envNonEmpty env k = Some v \<longleftrightarrow> env k = Some v \<and> v \<noteq> []"
  by (auto simp: envNonEmpty_def split: option.splits)

lemma envNonEmpty_None: "envNonEmpty env k = None \<longleftrightarrow> env k = None \<or> env k = Some []"
  by (auto simp: envNonEmpty_def split: option.splits)

lemma envNonEmpty_unset:
  "env k = Some [] \<Longrightarrow> envNonEmpty (env(k := None)) k' = envNonEmpty env k'"
  by (auto simp: envNonEmpty_def split: option.splits)

text \<open>
  Claim C1. For every managed-reference expression, \<open>Resolve\<close> consults the tiers in
  the order environment, secret store, fallback. A present and non-empty value of the
  environment variable \<open>envPrefix + key\<close> is returned at once, after the environment
  lookup alone, whatever the secret store and the fallback hold. A present but empty
  value is treated as absent: the call behaves as if the variable were unset. The
  lookups made are the environment lookup, followed or not by one call of the secret
  store. When the environment yields nothing, resolution continues: a secret store that
  answers gives the result, before any fallback; a secret store that fails, is disabled
  or is not bound leaves the result to the fallback tier, which returns the fallback of
  the reference if it has one and \<open>SecretNotFoundError\<close> with the key otherwise.
\<close>

theorem Resolve_tier_order:
  assumes "HasPrefix value SecretPrefix"
  shows "(\<forall>v. env (envPrefix r @ SecretName (Parse value)) = Some v \<and> v \<noteq> [] \<longrightarrow>
            Resolve r env value = ([LookupEnv (envPrefix r @ SecretName (Parse value))], Inr v))
       \<and> (env (envPrefix r @ SecretName (Parse value)) = Some [] \<longrightarrow>
            Resolve r env value =
              Resolve r (env(envPrefix r @ SecretName (Parse value) := None)) value)
       \<and> (fst (Resolve r env value) = [LookupEnv (envPrefix r @ SecretName (Parse value))]
          \<or> fst (Resolve r env value) =
               [LookupEnv (envPrefix r @ SecretName (Parse value)),
                CallGetSecret (SecretName (Parse value))])
       \<and> (\<forall>c v. env (envPrefix r @ SecretName (Parse value)) \<in> {None, Some []}
                 \<and> secretManagerEnabled r \<and> client r = Some c
                 \<and> GetSecret c (SecretName (Parse value)) = Inr v \<longrightarrow>
              Resolve r env value =
                ([LookupEnv (envPrefix r @ SecretName (Parse value)),
                  CallGetSecret (SecretName (Parse value))], Inr v))
       \<and> (\<forall>c e. env (envPrefix r @ SecretName (Parse value)) \<in> {None, Some []}
                 \<and> secretManagerEnabled r \<and> client r = Some c
                 \<and> GetSecret c (SecretName (Parse value)) = Inl e \<longrightarrow>
              Resolve r env value =
                ([LookupEnv (envPrefix r @ SecretName (Parse value)),
                  CallGetSecret (SecretName (Parse value))],
                 if HasDefault (Parse value) then Inr (DefaultValue (Parse value))
                 else Inl (SecretNotFoundError (SecretName (Parse value)))))
       \<and> (env (envPrefix r @ SecretName (Parse value)) \<in> {None, Some []}
            \<and> (\<not> secretManagerEnabled r \<or> client r = None) \<longrightarrow>
              Resolve r env value =
                ([LookupEnv (envPrefix r @ SecretName (Parse value))],
                 if HasDefault (Parse value) then Inr (DefaultValue (Parse value))
                 else Inl (SecretNotFoundError (SecretName (Parse value)))))"
proof -
  have ref: "IsSecretRef (Parse value)" using assms by (simp add: IsSecretRef_Parse)
  let ?k = "envPrefix r @ SecretName (Parse value)"
  let ?n = "SecretName (Parse value)"
  let ?fb = "if HasDefault (Parse value) then Inr (DefaultValue (Parse value))
             else Inl (SecretNotFoundError ?n)"
  have a: "\<forall>v. env ?k = Some v \<and> v \<noteq> [] \<longrightarrow> Resolve r env value = ([LookupEnv ?k], Inr v)"
    using ref by (simp add: Resolve_def Let_def envNonEmpty_def)
  have b: "env ?k = Some [] \<longrightarrow> Resolve r env value = Resolve r (env(?k := None)) value"
    using ref by (simp add: Resolve_def Let_def envNonEmpty_def)
  have c: "fst (Resolve r env value) = [LookupEnv ?k]
          \<or> fst (Resolve r env value) = [LookupEnv ?k, CallGetSecret ?n]"
    using ref by (simp add: Resolve_def Let_def split: option.splits sum.splits)
  have d: "\<forall>c v. env ?k \<in> {None, Some []} \<and> secretManagerEnabled r \<and> client r = Some c
                 \<and> GetSecret c ?n = Inr v \<longrightarrow>
              Resolve r env value = ([LookupEnv ?k, CallGetSecret ?n], Inr v)"
    using ref by (auto simp: Resolve_def Let_def envNonEmpty_def)
  have e: "\<forall>c e. env ?k \<in> {None, Some []} \<and> secretManagerEnabled r \<and> client r = Some c
                 \<and> GetSecret c ?n = Inl e \<longrightarrow>
              Resolve r env value = ([LookupEnv ?k, CallGetSecret ?n], ?fb)"
    using ref by (auto simp: Resolve_def Let_def envNonEmpty_def)
  have f: "env ?k \<in> {None, Some []} \<and> (\<not> secretManagerEnabled r \<or> client r = None) \<longrightarrow>
              Resolve r env value = ([LookupEnv ?k], ?fb)"
    using ref by (auto simp: Resolve_def Let_def envNonEmpty_def)
  from a b c d e f show ?thesis by (intro conjI)
qed

text \<open>
  Claim C2. For every managed-reference expression, \<open>Resolve\<close> fails exactly when the
  environment yields no non-empty value, the secret-store tier yields no value (it is
  disabled, no client is bound, or \<open>GetSecret\<close> fails) and the reference has no
  fallback; the only error it returns is \<open>SecretNotFoundError\<close> with the parsed key. A
  failure of the secret-store tier is swallowed: with a fallback, the fallback is
  returned. When the secret-store tier succeeds, its value is returned, the empty string
  included.
\<close>

theorem Resolve_error_exactly_when:
  assumes "HasPrefix value SecretPrefix"
  shows "(snd (Resolve r env value) = Inl (SecretNotFoundError (SecretName (Parse value)))
          \<longleftrightarrow>
            env (envPrefix r @ SecretName (Parse value)) \<in> {None, Some []}
            \<and> (\<not> secretManagerEnabled r \<or> client r = None
                \<or> (\<exists>c e. client r = Some c \<and> GetSecret c (SecretName (Parse value)) = Inl e))
            \<and> \<not> HasDefault (Parse value))
       \<and> (\<forall>e. snd (Resolve r env value) = Inl e \<longrightarrow>
              e = SecretNotFoundError (SecretName (Parse value)))
       \<and> (env (envPrefix r @ SecretName (Parse value)) \<in> {None, Some []}
            \<and> (\<not> secretManagerEnabled r \<or> client r = None
                \<or> (\<exists>c e. client r = Some c \<and> GetSecret c (SecretName (Parse value)) = Inl e))
            \<and> HasDefault (Parse value) \<longrightarrow>
              snd (Resolve r env value) = Inr (DefaultValue (Parse value)))
       \<and> (\<forall>c v. env (envPrefix r @ SecretName (Parse value)) \<in> {None, Some []}
                 \<and> secretManagerEnabled r \<and> client r = Some c
                 \<and> GetSecret c (SecretName (Parse value)) = Inr v \<longrightarrow>
              snd (Resolve r env value) = Inr v)"
proof -
  have ref: "IsSecretRef (Parse value)" using assms by (simp add: IsSecretRef_Parse)
  let ?k = "envPrefix r @ SecretName (Parse value)"
  let ?n = "SecretName (Parse value)"
  let ?fails = "\<not> secretManagerEnabled r \<or> client r = None
                \<or> (\<exists>c e. client r = Some c \<and> GetSecret c ?n = Inl e)"
  have a: "snd (Resolve r env value) = Inl (SecretNotFoundError ?n) \<longleftrightarrow>
             env ?k \<in> {None, Some []} \<and> ?fails \<and> \<not> HasDefault (Parse value)"
    using ref
    by (cases "env ?k"; cases "client r"; cases "secretManagerEnabled r";
        auto simp: Resolve_def Let_def envNonEmpty_def split: sum.splits)
  have b: "\<forall>e. snd (Resolve r env value) = Inl e \<longrightarrow> e = SecretNotFoundError ?n"
    using ref
    by (auto simp: Resolve_def Let_def split: option.splits sum.splits if_splits)
  have c: "env ?k \<in> {None, Some []} \<and> ?fails \<and> HasDefault (Parse value) \<longrightarrow>
              snd (Resolve r env value) = Inr (DefaultValue (Parse value))"
    using ref
    by (cases "env ?k"; cases "client r"; cases "secretManagerEnabled r";
        auto simp: Resolve_def Let_def envNonEmpty_def split: sum.splits)
  have d: "\<forall>c v. env ?k \<in> {None, Some []} \<and> secretManagerEnabled r \<and> client r = Some c
                 \<and> GetSecret c ?n = Inr v \<longrightarrow> snd (Resolve r env value) = Inr v"
    using ref by (auto simp: Resolve_def Let_def envNonEmpty_def)
  from a b c d show ?thesis by blast
qed

lemma client_fold_applyOption: "client (fold applyOption opts r) = client r"
proof (induction opts arbitrary: r)
  case Nil
  show ?case by simp
next
  case (Cons opt opts)
  have "client (applyOption opt r) = client r" by (cases opt) simp_all
  with Cons.IH [of "applyOption opt r"] show ?case by simp
qed

lemma Resolve_no_client_trace:
  assumes "client r = None"
  shows "CallGetSecret k \<notin> set (fst (Resolve r env value))"
  using assms by (simp add: Resolve_def Let_def split: option.splits)

lemma resolveEach_no_client_trace:
  assumes "client r = None" "CallGetSecret k \<notin> set tr"
  shows "CallGetSecret k \<notin> set (fst (resolveEach r env vals tr result))"
  using assms(2)
proof (induction vals arbitrary: tr result)
  case Nil
  then show ?case by simp
next
  case (Cons v vs)
  obtain t res where R: "Resolve r env v = (t, res)" by (cases "Resolve r env v")
  with Resolve_no_client_trace [OF assms(1), of k env v]
  have t: "CallGetSecret k \<notin> set t" by simp
  show ?case
  proof (cases res)
    case (Inl e)
    with R t Cons.prems show ?thesis by simp
  next
    case (Inr s)
    from t Cons.prems have "CallGetSecret k \<notin> set (tr @ t)" by simp
    from Cons.IH [OF this] R Inr show ?thesis by simp
  qed
qed

lemma ResolveSlice_no_client_trace:
  assumes "client r = None"
  shows "CallGetSecret k \<notin> set (fst (ResolveSlice u r env vals))"
proof -
  have "CallGetSecret k \<notin> set (fst (resolveEach r env vals [] []))"
    using resolveEach_no_client_trace [OF assms] by simp
  then show ?thesis
    using assms by (simp add: ResolveSlice_def Let_def split: option.splits)
qed

text \<open>
  Claim C10. A resolver built with a nil client keeps a nil client whatever options are
  applied, the option that enables the secret store included; \<open>Resolve\<close> and
  \<open>ResolveSlice\<close> on it never call \<open>GetSecret\<close>. Without options, the secret-store
  tier is enabled exactly when the client is not nil.
\<close>

theorem nil_client_never_consulted:
  "client (NewResolver None opts) = None
   \<and> (\<forall>k. CallGetSecret k \<notin> set (fst (Resolve (NewResolver None opts) env value)))
   \<and> (\<forall>k. CallGetSecret k \<notin> set (fst (ResolveSlice u (NewResolver None opts) env vals)))
   \<and> secretManagerEnabled (NewResolver c []) = (c \<noteq> None)"
proof -
  have n: "client (NewResolver None opts) = None"
    by (simp add: NewResolver_def client_fold_applyOption)
  have e: "secretManagerEnabled (NewResolver c []) = (c \<noteq> None)"
    by (simp add: NewResolver_def)
  from n e Resolve_no_client_trace [OF n] ResolveSlice_no_client_trace [OF n]
  show ?thesis by blast
qed

lemma Parse_ex_K_v3:
  "Parse ''sm://K||v3'' =
     \<lparr>SecretName = ''K'', DefaultValue = ''v3'', HasDefault = True, IsSecretRef = True\<rparr>"
  by code_simp

lemma Parse_ex_K:
  "Parse ''sm://K'' =
     \<lparr>SecretName = ''K'', DefaultValue = [], HasDefault = False, IsSecretRef = True\<rparr>"
  by code_simp

lemma HasPrefix_ex_K_v3: "HasPrefix ''sm://K||v3'' SecretPrefix"
  by (simp add: HasPrefix_def SecretPrefix_def)

lemma HasPrefix_ex_K: "HasPrefix ''sm://K'' SecretPrefix"
  by (simp add: HasPrefix_def SecretPrefix_def)

theorem Resolve_tier_order_witness:
  "HasPrefix ''sm://K||v3'' SecretPrefix
   \<and> Resolve (NewResolver (Some \<lparr>projectID = ''p'', access = (\<lambda>n. Some ''v2'')\<rparr>) [])
        [''K'' \<mapsto> ''v1''] ''sm://K||v3'' = ([LookupEnv ''K''], Inr ''v1'')
   \<and> Resolve (NewResolver (Some \<lparr>projectID = ''p'', access = (\<lambda>n. Some ''v2'')\<rparr>) [])
        [''K'' \<mapsto> []] ''sm://K||v3'' = ([LookupEnv ''K'', CallGetSecret ''K''], Inr ''v2'')
   \<and> Resolve (NewResolver None []) [''K'' \<mapsto> []] ''sm://K||v3''
        = Resolve (NewResolver None []) Map.empty ''sm://K||v3''
   \<and> Resolve (NewResolver (Some \<lparr>projectID = ''p'', access = (\<lambda>n. None)\<rparr>) [])
        [''K'' \<mapsto> []] ''sm://K||v3'' = ([LookupEnv ''K'', CallGetSecret ''K''], Inr ''v3'')
   \<and> Resolve (NewResolver None [WithSecretManagerEnabled False])
        [''K'' \<mapsto> []] ''sm://K||v3'' = ([LookupEnv ''K''], Inr ''v3'')
   \<and> HasPrefix ''sm://K'' SecretPrefix
   \<and> Resolve (NewResolver None [WithSecretManagerEnabled False])
        Map.empty ''sm://K'' = ([LookupEnv ''K''], Inl (SecretNotFoundError ''K''))"
proof -
  let ?c = "\<lparr>projectID = ''p'', access = (\<lambda>n. Some ''v2'')\<rparr>"
  let ?cf = "\<lparr>projectID = ''p'', access = (\<lambda>n. None)\<rparr>"
  let ?r = "NewResolver (Some ?c) []"
  let ?rf = "NewResolver (Some ?cf) []"
  let ?rn = "NewResolver None [WithSecretManagerEnabled False]"
  note h = HasPrefix_ex_K_v3
  have g: "GetSecret ?c ''K'' = Inr ''v2''"
    by (simp add: GetSecret_def)
  have g0: "GetSecret ?cf ''K'' = Inl (SecretNotFoundError ''K'')"
    by (simp add: GetSecret_def)
  have a: "Resolve ?r [''K'' \<mapsto> ''v1''] ''sm://K||v3'' = ([LookupEnv ''K''], Inr ''v1'')"
    using Resolve_tier_order [OF h, of "[''K'' \<mapsto> ''v1'']" ?r, THEN conjunct1, rule_format,
        of "''v1''"]
    by (simp add: NewResolver_def Parse_ex_K_v3)
  have b: "Resolve ?r [''K'' \<mapsto> []] ''sm://K||v3''
             = ([LookupEnv ''K'', CallGetSecret ''K''], Inr ''v2'')"
    using Resolve_tier_order [OF h, of "[''K'' \<mapsto> []]" ?r, THEN conjunct2, THEN conjunct2,
        THEN conjunct2, THEN conjunct1, rule_format, of ?c "''v2''"] g
    by (simp add: NewResolver_def Parse_ex_K_v3)
  have d: "Resolve (NewResolver None []) [''K'' \<mapsto> []] ''sm://K||v3''
        = Resolve (NewResolver None []) Map.empty ''sm://K||v3''"
    using Resolve_tier_order [OF h, of "[''K'' \<mapsto> []]" "NewResolver None []", THEN conjunct2,
        THEN conjunct1]
    by (simp add: NewResolver_def Parse_ex_K_v3)
  have e: "Resolve ?rf [''K'' \<mapsto> []] ''sm://K||v3''
             = ([LookupEnv ''K'', CallGetSecret ''K''], Inr ''v3'')"
    using Resolve_tier_order [OF h, of "[''K'' \<mapsto> []]" ?rf, THEN conjunct2, THEN conjunct2,
        THEN conjunct2, THEN conjunct2, THEN conjunct1, rule_format,
        of ?cf "SecretNotFoundError ''K''"] g0
    by (simp add: NewResolver_def Parse_ex_K_v3)
  have f: "Resolve ?rn [''K'' \<mapsto> []] ''sm://K||v3'' = ([LookupEnv ''K''], Inr ''v3'')"
    using Resolve_tier_order [OF h, of "[''K'' \<mapsto> []]" ?rn, THEN conjunct2, THEN conjunct2,
        THEN conjunct2, THEN conjunct2, THEN conjunct2]
    by (simp add: NewResolver_def Parse_ex_K_v3)
  have f': "Resolve ?rn Map.empty ''sm://K'' = ([LookupEnv ''K''], Inl (SecretNotFoundError ''K''))"
    using Resolve_tier_order [OF HasPrefix_ex_K, of Map.empty ?rn, THEN conjunct2,
        THEN conjunct2, THEN conjunct2, THEN conjunct2, THEN conjunct2]
    by (simp add: NewResolver_def Parse_ex_K)
  from h a b d e f HasPrefix_ex_K f' show ?thesis by (intro conjI)
qed


theorem Resolve_error_exactly_when_witness:
  "HasPrefix ''sm://K'' SecretPrefix
   \<and> snd (Resolve (NewResolver None [WithSecretManagerEnabled True]) [''K'' \<mapsto> []] ''sm://K'')
       = Inl (SecretNotFoundError ''K'')
   \<and> snd (Resolve (NewResolver (Some \<lparr>projectID = ''p'', access = (\<lambda>n. None)\<rparr>) [])
            Map.empty ''sm://K||v3'') = Inr ''v3''
   \<and> snd (Resolve (NewResolver (Some \<lparr>projectID = ''p'', access = (\<lambda>n. Some [])\<rparr>) [])
            Map.empty ''sm://K||v3'') = Inr []"
proof -
  let ?r0 = "NewResolver None [WithSecretManagerEnabled True]"
  let ?c1 = "\<lparr>projectID = ''p'', access = (\<lambda>n. None)\<rparr>"
  let ?c2 = "\<lparr>projectID = ''p'', access = (\<lambda>n. Some [])\<rparr>"
  have a: "snd (Resolve ?r0 [''K'' \<mapsto> []] ''sm://K'') = Inl (SecretNotFoundError ''K'')"
    using Resolve_error_exactly_when [OF HasPrefix_ex_K, of ?r0 "[''K'' \<mapsto> []]",
        THEN conjunct1]
    by (simp add: NewResolver_def Parse_ex_K)
  have g1: "GetSecret ?c1 ''K'' = Inl (SecretNotFoundError ''K'')"
    by (simp add: GetSecret_def)
  have b: "snd (Resolve (NewResolver (Some ?c1) []) Map.empty ''sm://K||v3'') = Inr ''v3''"
    using Resolve_error_exactly_when [OF HasPrefix_ex_K_v3, of "NewResolver (Some ?c1) []"
        Map.empty, THEN conjunct2, THEN conjunct2, THEN conjunct1] g1
    by (simp add: NewResolver_def Parse_ex_K_v3)
  have g2: "GetSecret ?c2 ''K'' = Inr []"
    by (simp add: GetSecret_def)
  have c: "snd (Resolve (NewResolver (Some ?c2) []) Map.empty ''sm://K||v3'') = Inr []"
    using Resolve_error_exactly_when [OF HasPrefix_ex_K_v3, of "NewResolver (Some ?c2) []"
        Map.empty, THEN conjunct2, THEN conjunct2, THEN conjunct2, rule_format, of ?c2 "[]"] g2
    by (simp add: NewResolver_def Parse_ex_K_v3)
  from HasPrefix_ex_K a b c show ?thesis by (intro conjI)
qed

theorem nil_client_never_consulted_witness:
  "secretManagerEnabled (NewResolver None [WithSecretManagerEnabled True])
   \<and> client (NewResolver None [WithSecretManagerEnabled True]) = None
   \<and> CallGetSecret ''K'' \<notin>
       set (fst (Resolve (NewResolver None [WithSecretManagerEnabled True]) Map.empty ''sm://K''))
   \<and> secretManagerEnabled (NewResolver (Some \<lparr>projectID = ''p'', access = (\<lambda>n. None)\<rparr>) [])
   \<and> \<not> secretManagerEnabled (NewResolver None [])"
proof -
  have e: "secretManagerEnabled (NewResolver None [WithSecretManagerEnabled True])"
    by (simp add: NewResolver_def)
  note t = nil_client_never_consulted
    [of "[WithSecretManagerEnabled True]" Map.empty "''sm://K''" jsonStringArray "[]"]
  have a: "client (NewResolver None [WithSecretManagerEnabled True]) = None"
    using t [THEN conjunct1] .
  have b: "CallGetSecret ''K'' \<notin>
       set (fst (Resolve (NewResolver None [WithSecretManagerEnabled True]) Map.empty ''sm://K''))"
    using t [THEN conjunct2, THEN conjunct1, rule_format, of "''K''"] .
  have c: "secretManagerEnabled
             (NewResolver (Some \<lparr>projectID = ''p'', access = (\<lambda>n. None)\<rparr>) [])"
    using t [of "Some \<lparr>projectID = ''p'', access = (\<lambda>n. None)\<rparr>", THEN conjunct2,
        THEN conjunct2, THEN conjunct2]
    by simp
  have d: "\<not> secretManagerEnabled (NewResolver None [])"
    using t [of None, THEN conjunct2, THEN conjunct2, THEN conjunct2] by simp
  from e a b c d show ?thesis by (intro conjI)
qed

section \<open>Properties of the tag parser\<close>

lemma Cut_Some_append: "Cut s sep = Some (a, b) \<Longrightarrow> s = a @ sep @ b"
proof (induction s arbitrary: a)
  case Nil
  then show ?case by (auto split: if_splits)
next
  case (Cons c cs)
  show ?case
  proof (cases "prefix sep (c # cs)")
    case True
    with Cons.prems have "a = []" "b = drop (length sep) (c # cs)" by auto
    with True show ?thesis by (auto simp: prefix_def)
  next
    case False
    with Cons.prems obtain a' where "Cut cs sep = Some (a', b)" "a = c # a'"
      by (auto split: option.splits)
    with Cons.IH show ?thesis by simp
  qed
qed

lemma Cut_before_has_no_sep:
  assumes "Cut s sep = Some (a, b)" "sep \<noteq> []"
  shows "\<not> sublist sep a"
  using assms(1)
proof (induction s arbitrary: a)
  case Nil
  with assms(2) show ?case by simp
next
  case (Cons c cs)
  show ?case
  proof (cases "prefix sep (c # cs)")
    case True
    with Cons.prems have "a = []" by simp
    with assms(2) show ?thesis by simp
  next
    case False
    with Cons.prems obtain a' where c: "Cut cs sep = Some (a', b)" and a: "a = c # a'"
      by (auto split: option.splits)
    from Cons.IH [OF c] have n: "\<not> sublist sep a'" .
    have "\<not> prefix sep (c # a')"
    proof
      assume "prefix sep (c # a')"
      moreover have "c # cs = (c # a') @ sep @ b" using Cut_Some_append [OF c] by simp
      ultimately have "prefix sep (c # cs)" by (metis prefix_prefix)
      with False show False ..
    qed
    with n a show ?thesis by (simp add: sublist_Cons_right)
  qed
qed

lemma SplitFuel_not_Nil: "SplitFuel k s sep \<noteq> []"
  by (cases k) (auto split: option.splits)

lemma Split_not_Nil: "Split s sep \<noteq> []"
  by (simp add: Split_def SplitFuel_not_Nil)

lemma Join_Cons: "xs \<noteq> [] \<Longrightarrow> Join (x # xs) sep = x @ sep @ Join xs sep"
  by (cases xs) simp_all

lemma Join_SplitFuel: "Join (SplitFuel k s sep) sep = s"
proof (induction k arbitrary: s)
  case 0
  show ?case by simp
next
  case (Suc k)
  show ?case
  proof (cases "Cut s sep")
    case None
    then show ?thesis by simp
  next
    case (Some ab)
    obtain a b where ab: "ab = (a, b)" by (cases ab)
    from Some ab have "s = a @ sep @ b" by (simp add: Cut_Some_append)
    with Some ab Suc.IH [of b] show ?thesis
      by (simp add: Join_Cons SplitFuel_not_Nil)
  qed
qed

lemma SplitFuel_parts_have_no_sep:
  assumes "sep \<noteq> []"
  shows "length s \<le> k \<Longrightarrow> p \<in> set (SplitFuel k s sep) \<Longrightarrow> \<not> sublist sep p"
proof (induction k arbitrary: s)
  case 0
  with assms show ?case by simp
next
  case (Suc k)
  show ?case
  proof (cases "Cut s sep")
    case None
    with Suc.prems show ?thesis by (simp add: Cut_None_iff)
  next
    case (Some ab)
    obtain a b where ab: "ab = (a, b)" by (cases ab)
    from Some ab have c: "Cut s sep = Some (a, b)" by simp
    from Cut_length [OF c] assms Suc.prems(1) have "length b \<le> k"
      by (cases sep) auto
    from Suc.IH [OF this] have "p \<in> set (SplitFuel k b sep) \<Longrightarrow> \<not> sublist sep p" .
    moreover from Suc.prems(2) c have "p = a \<or> p \<in> set (SplitFuel k b sep)" by simp
    ultimately show ?thesis using Cut_before_has_no_sep [OF c assms] by blast
  qed
qed

lemma sublist_single: "sublist [c] s \<longleftrightarrow> c \<in> set s"
  by (induction s) (auto simp: sublist_Cons_right)

lemma Contains_comma: "Contains s '','' \<longleftrightarrow> CHR '','' \<in> set s"
  by (simp add: Contains_def Cut_None_iff sublist_single)

lemma Split_comma:
  "Split s '','' \<noteq> [] \<and> Join (Split s '','') '','' = s
   \<and> (\<forall>p \<in> set (Split s '',''). CHR '','' \<notin> set p)"
  using SplitFuel_parts_have_no_sep [of "'',''" s "length s"]
  by (auto simp: Split_def SplitFuel_not_Nil Join_SplitFuel sublist_single)

lemma parseTagPart_default:
  assumes "HasPrefix (TrimSpace p) ''default=''"
  shows "parseTagPart p info
           = info\<lparr>defaultValue := drop 8 (TrimSpace p), hasDefault := True\<rparr>"
proof -
  have l: "length ''default='' = 8" by simp
  from assms have "TrimSpace p \<noteq> ''required''" by (auto simp: HasPrefix_def)
  with assms show ?thesis unfolding parseTagPart_def Let_def TrimPrefix_def l by simp
qed

lemma parseTagPart_required:
  assumes "TrimSpace p = ''required''"
  shows "parseTagPart p info = info\<lparr>required := True\<rparr>"
  using assms by (simp add: parseTagPart_def Let_def)

lemma parseTagPart_other:
  assumes "\<not> HasPrefix (TrimSpace p) ''default=''" "TrimSpace p \<noteq> ''required''"
  shows "parseTagPart p info = info"
  using assms by (simp add: parseTagPart_def Let_def)

lemma parseTagPart_cases:
  "parseTagPart p info =
     (if TrimSpace p = ''required'' then info\<lparr>required := True\<rparr>
      else if HasPrefix (TrimSpace p) ''default=''
      then info\<lparr>defaultValue := drop 8 (TrimSpace p), hasDefault := True\<rparr>
      else info)"
proof -
  have l: "length ''default='' = 8" by simp
  show ?thesis unfolding parseTagPart_def Let_def TrimPrefix_def l by simp
qed

lemma secretName_fold: "secretName (fold parseTagPart ps info) = secretName info"
  by (induction ps arbitrary: info) (simp_all add: parseTagPart_cases)

lemma required_fold:
  "required (fold parseTagPart ps info)
     = (required info \<or> ''required'' \<in> set (map TrimSpace ps))"
  by (induction ps arbitrary: info) (auto simp: parseTagPart_cases)

lemma hasDefault_fold:
  "hasDefault (fold parseTagPart ps info)
     = (hasDefault info \<or> (\<exists>p \<in> set (map TrimSpace ps). HasPrefix p ''default=''))"
  by (induction ps arbitrary: info) (auto simp: parseTagPart_cases HasPrefix_def)

lemma defaultValue_fold:
  "defaultValue (fold parseTagPart ps info)
     = (case filter (\<lambda>p. HasPrefix p ''default='') (map TrimSpace ps) of
          [] \<Rightarrow> defaultValue info
        | d # ds \<Rightarrow> drop 8 (last (d # ds)))"
proof (induction ps arbitrary: info)
  case Nil
  show ?case by simp
next
  case (Cons p ps)
  show ?case
  proof (cases "HasPrefix (TrimSpace p) ''default=''")
    case True
    have "defaultValue (fold parseTagPart (p # ps) info)
            = defaultValue (fold parseTagPart ps
                (info\<lparr>defaultValue := drop 8 (TrimSpace p), hasDefault := True\<rparr>))"
      by (simp add: parseTagPart_default [OF True])
    also have "\<dots> = (case filter (\<lambda>p. HasPrefix p ''default='') (map TrimSpace ps) of
                        [] \<Rightarrow> drop 8 (TrimSpace p)
                      | d # ds \<Rightarrow> drop 8 (last (d # ds)))"
      by (simp add: Cons.IH split: list.splits)
    also have "\<dots> = (case filter (\<lambda>p. HasPrefix p ''default='') (map TrimSpace (p # ps)) of
                        [] \<Rightarrow> defaultValue info
                      | d # ds \<Rightarrow> drop 8 (last (d # ds)))"
      using True by (simp split: list.splits)
    finally show ?thesis .
  next
    case False
    have "defaultValue (parseTagPart p info) = defaultValue info"
      using False by (simp add: parseTagPart_cases)
    moreover have "defaultValue (fold parseTagPart (p # ps) info)
            = (case filter (\<lambda>p. HasPrefix p ''default='') (map TrimSpace ps) of
                 [] \<Rightarrow> defaultValue (parseTagPart p info)
               | d # ds \<Rightarrow> drop 8 (last (d # ds)))"
      by (simp add: Cons.IH)
    ultimately show ?thesis using False by (simp split: list.splits)
  qed
qed

text \<open>
  Claim C7, as the code has it. \<open>parseTag\<close> splits the annotation on commas (the
  segments joined by commas give the annotation back, and no segment contains a comma);
  the key is the first segment trimmed; among the remaining segments, trimmed (each
  without its surrounding white space), the literal \<open>required\<close> sets \<open>required\<close>, a
  segment that starts with \<open>default=\<close> sets \<open>hasDefault\<close>, and the fallback is what
  follows that prefix in the last such segment (every later one overwrites the
  earlier); any other segment is ignored. The annotation \<open>K,default=v,required\<close> parses
  to key \<open>K\<close>, fallback \<open>v\<close>, \<open>hasDefault\<close> and \<open>required\<close> true.
\<close>

theorem parseTag_segments:
  "Split tag '','' \<noteq> []
   \<and> Join (Split tag '','') '','' = tag
   \<and> (\<forall>p \<in> set (Split tag '',''). CHR '','' \<notin> set p \<and> isTrimOf (TrimSpace p) p)
   \<and> secretName (parseTag tag) = TrimSpace (hd (Split tag '',''))
   \<and> required (parseTag tag) = (''required'' \<in> set (map TrimSpace (tl (Split tag '',''))))
   \<and> hasDefault (parseTag tag)
       = (\<exists>p \<in> set (map TrimSpace (tl (Split tag '',''))). HasPrefix p ''default='')
   \<and> defaultValue (parseTag tag)
       = (case filter (\<lambda>p. HasPrefix p ''default='') (map TrimSpace (tl (Split tag '','')))
          of [] \<Rightarrow> [] | d # ds \<Rightarrow> drop 8 (last (d # ds)))
   \<and> parseTag ''K,default=v,required''
       = \<lparr>secretName = ''K'', defaultValue = ''v'', hasDefault = True, required = True\<rparr>"
proof -
  have ex: "parseTag ''K,default=v,required''
       = \<lparr>secretName = ''K'', defaultValue = ''v'', hasDefault = True, required = True\<rparr>"
    by code_simp
  have a: "secretName (parseTag tag) = TrimSpace (hd (Split tag '',''))"
    by (simp add: parseTag_def Let_def secretName_fold)
  have b: "required (parseTag tag) = (''required'' \<in> set (map TrimSpace (tl (Split tag '',''))))"
    by (simp add: parseTag_def Let_def required_fold del: set_map)
  have c: "hasDefault (parseTag tag)
       = (\<exists>p \<in> set (map TrimSpace (tl (Split tag '',''))). HasPrefix p ''default='')"
    by (simp add: parseTag_def Let_def hasDefault_fold del: set_map)
  have d: "defaultValue (parseTag tag)
       = (case filter (\<lambda>p. HasPrefix p ''default='') (map TrimSpace (tl (Split tag '','')))
          of [] \<Rightarrow> [] | d # ds \<Rightarrow> drop 8 (last (d # ds)))"
    by (simp add: parseTag_def Let_def defaultValue_fold split: list.splits)
  have e: "\<forall>p \<in> set (Split tag '',''). CHR '','' \<notin> set p \<and> isTrimOf (TrimSpace p) p"
    using Split_comma [of tag] by (simp add: TrimSpace_isTrimOf)
  from Split_comma [of tag] e a b c d ex show ?thesis by (intro conjI) blast+
qed

text \<open>
  With two \<open>default=\<close> segments the fallback is the second one, not the first.
\<close>

theorem parseTag_second_default_counterexample:
  "parseTag ''K,default=a,default=b''
     = \<lparr>secretName = ''K'', defaultValue = ''b'', hasDefault = True, required = False\<rparr>"
  by code_simp

lemma Split_ex_tag:
  "Split '' K , default=v ,x,default=w, required '' '',''
     = ['' K '', '' default=v '', ''x'', ''default=w'', '' required '']"
  by code_simp

lemma TrimSpace_ex_tag:
  "map TrimSpace ['' default=v '', ''x'', ''default=w'', '' required '']
     = [''default=v'', ''x'', ''default=w'', ''required'']"
  by code_simp

theorem parseTag_segments_witness:
  "secretName (parseTag '' K , default=v ,x,default=w, required '') = ''K''
   \<and> required (parseTag '' K , default=v ,x,default=w, required '')
   \<and> hasDefault (parseTag '' K , default=v ,x,default=w, required '')
   \<and> defaultValue (parseTag '' K , default=v ,x,default=w, required '') = ''w''
   \<and> CHR '','' \<notin> set '' default=v ''
   \<and> isTrimOf ''default=v'' '' default=v ''"
proof -
  note t = parseTag_segments [of "'' K , default=v ,x,default=w, required ''"]
  have a: "secretName (parseTag '' K , default=v ,x,default=w, required '') = ''K''"
    using t [THEN conjunct2, THEN conjunct2, THEN conjunct2, THEN conjunct1]
    by (simp add: Split_ex_tag TrimSpace_ex1)
  have b: "required (parseTag '' K , default=v ,x,default=w, required '')"
    using t [THEN conjunct2, THEN conjunct2, THEN conjunct2, THEN conjunct2, THEN conjunct1]
    by (simp add: Split_ex_tag TrimSpace_ex_tag del: list.map)
  have c: "hasDefault (parseTag '' K , default=v ,x,default=w, required '')"
    using t [THEN conjunct2, THEN conjunct2, THEN conjunct2, THEN conjunct2, THEN conjunct2,
        THEN conjunct1]
    by (simp add: Split_ex_tag TrimSpace_ex_tag HasPrefix_def del: list.map)
  have d: "defaultValue (parseTag '' K , default=v ,x,default=w, required '') = ''w''"
    using t [THEN conjunct2, THEN conjunct2, THEN conjunct2, THEN conjunct2, THEN conjunct2,
        THEN conjunct2, THEN conjunct1]
    by (simp add: Split_ex_tag TrimSpace_ex_tag HasPrefix_def del: list.map)
  have "\<forall>p \<in> set ['' K '', '' default=v '', ''x'', ''default=w'', '' required ''].
         CHR '','' \<notin> set p \<and> isTrimOf (TrimSpace p) p"
    using t [THEN conjunct2, THEN conjunct2, THEN conjunct1]
    by (simp only: Split_ex_tag)
  then have "CHR '','' \<notin> set '' default=v ''
             \<and> isTrimOf (TrimSpace '' default=v '') '' default=v ''"
    by simp
  moreover have "TrimSpace '' default=v '' = ''default=v''"
    by code_simp
  ultimately have e: "CHR '','' \<notin> set '' default=v ''" "isTrimOf ''default=v'' '' default=v ''"
    by simp_all
  from a b c d e show ?thesis by (intro conjI)
qed

section \<open>Properties of the array parser and of list resolution\<close>

text \<open>
  Claim C5, as the code has it. \<open>parseArrayValue\<close> trims the value of surrounding
  white space and looks at the bracket shape before the comma shape: a trimmed value
  that starts with \<open>[\<close> goes to the JSON decoder whether or not it contains commas, and
  a decoding failure is returned as the decoder's error wrapped by \<open>fmt.Errorf\<close> under
  the message \<open>failed to parse JSON array\<close>; otherwise a value that contains a comma is
  split on commas (the parts joined by commas give the value back, and no part contains
  a comma), every part is trimmed and the empty ones are dropped; otherwise a non-empty
  value is a one-element list and the empty value is the empty list. No result is an
  \<open>InvalidFormatError\<close>.
\<close>

theorem parseArrayValue_shapes:
  "(HasPrefix (TrimSpace raw) ''['' \<longrightarrow>
      parseArrayValue u raw =
        (case u (TrimSpace raw) of
           Inl err \<Rightarrow> Inl (Errorf ''failed to parse JSON array'' err)
         | Inr arr \<Rightarrow> Inr arr))
   \<and> (\<not> HasPrefix (TrimSpace raw) ''['' \<and> CHR '','' \<in> set (TrimSpace raw) \<longrightarrow>
      parseArrayValue u raw =
        Inr (filter (\<lambda>t. t \<noteq> []) (map TrimSpace (Split (TrimSpace raw) '',''))))
   \<and> (\<not> HasPrefix (TrimSpace raw) ''['' \<and> CHR '','' \<notin> set (TrimSpace raw)
        \<and> TrimSpace raw \<noteq> [] \<longrightarrow>
      parseArrayValue u raw = Inr [TrimSpace raw])
   \<and> (TrimSpace raw = [] \<longrightarrow> parseArrayValue u raw = Inr [])
   \<and> isTrimOf (TrimSpace raw) raw
   \<and> Join (Split (TrimSpace raw) '','') '','' = TrimSpace raw
   \<and> (\<forall>p \<in> set (Split (TrimSpace raw) '','').
         CHR '','' \<notin> set p \<and> isTrimOf (TrimSpace p) p)
   \<and> (\<forall>v reason. parseArrayValue u raw \<noteq> Inl (InvalidFormatError v reason))"
proof -
  have a: "HasPrefix (TrimSpace raw) ''['' \<longrightarrow>
      parseArrayValue u raw =
        (case u (TrimSpace raw) of
           Inl err \<Rightarrow> Inl (Errorf ''failed to parse JSON array'' err)
         | Inr arr \<Rightarrow> Inr arr)"
    by (simp add: parseArrayValue_def Let_def)
  have b: "\<not> HasPrefix (TrimSpace raw) ''['' \<and> CHR '','' \<in> set (TrimSpace raw) \<longrightarrow>
      parseArrayValue u raw =
        Inr (filter (\<lambda>t. t \<noteq> []) (map TrimSpace (Split (TrimSpace raw) '','')))"
    by (simp add: parseArrayValue_def Let_def Contains_comma)
  have c: "\<not> HasPrefix (TrimSpace raw) ''['' \<and> CHR '','' \<notin> set (TrimSpace raw)
        \<and> TrimSpace raw \<noteq> [] \<longrightarrow> parseArrayValue u raw = Inr [TrimSpace raw]"
    by (simp add: parseArrayValue_def Let_def Contains_comma)
  have d: "TrimSpace raw = [] \<longrightarrow> parseArrayValue u raw = Inr []"
    by (simp add: parseArrayValue_def Let_def Contains_comma HasPrefix_def)
  have e: "\<forall>p \<in> set (Split (TrimSpace raw) '','').
         CHR '','' \<notin> set p \<and> isTrimOf (TrimSpace p) p"
    using Split_comma [of "TrimSpace raw"] by (simp add: TrimSpace_isTrimOf)
  have f: "\<forall>v reason. parseArrayValue u raw \<noteq> Inl (InvalidFormatError v reason)"
    by (simp add: parseArrayValue_def Let_def split: sum.splits)
  from a b c d TrimSpace_isTrimOf [of raw] Split_comma [of "TrimSpace raw"] e f
  show ?thesis by (intro conjI) blast+
qed

text \<open>
  On a malformed bracketed value the error is the wrapped decoder error: it is not an
  \<open>InvalidFormatError\<close> and does not carry the offending text.
\<close>

theorem parseArrayValue_malformed_counterexample:
  \<open>parseArrayValue jsonStringArray ''["a","b"''
     = Inl (Errorf ''failed to parse JSON array'' (LibError ''unexpected end of JSON input''))\<close>
  by code_simp

lemma parseArrayValue_ex_trims:
  \<open>TrimSpace '' ["a", "b,c"] '' = ''["a", "b,c"]''\<close>
  "TrimSpace '' a , b,,c '' = ''a , b,,c''"
  "TrimSpace '' x '' = ''x''"
  "TrimSpace ''  '' = []"
  by code_simp+

lemma parseArrayValue_ex_split:
  "filter (\<lambda>t. t \<noteq> []) (map TrimSpace (Split ''a , b,,c'' '','')) = [''a'', ''b'', ''c'']"
  by code_simp

lemma parseArrayValue_ex_json:
  \<open>jsonStringArray ''["a", "b,c"]'' = Inr [''a'', ''b,c'']\<close>
  by code_simp

theorem parseArrayValue_shapes_witness:
  \<open>parseArrayValue jsonStringArray '' ["a", "b,c"] '' = Inr [''a'', ''b,c'']
   \<and> parseArrayValue jsonStringArray '' a , b,,c '' = Inr [''a'', ''b'', ''c'']
   \<and> parseArrayValue jsonStringArray '' x '' = Inr [''x'']
   \<and> parseArrayValue jsonStringArray ''  '' = Inr []\<close>
proof -
  have a: \<open>parseArrayValue jsonStringArray '' ["a", "b,c"] '' = Inr [''a'', ''b,c'']\<close>
    using parseArrayValue_shapes [of \<open>'' ["a", "b,c"] ''\<close> jsonStringArray, THEN conjunct1]
    by (simp add: parseArrayValue_ex_trims parseArrayValue_ex_json HasPrefix_def)
  have b: "parseArrayValue jsonStringArray '' a , b,,c '' = Inr [''a'', ''b'', ''c'']"
    using parseArrayValue_shapes [of "'' a , b,,c ''" jsonStringArray, THEN conjunct2,
        THEN conjunct1]
    by (simp add: parseArrayValue_ex_trims parseArrayValue_ex_split HasPrefix_def)
  have c: "parseArrayValue jsonStringArray '' x '' = Inr [''x'']"
    using parseArrayValue_shapes [of "'' x ''" jsonStringArray, THEN conjunct2, THEN conjunct2,
        THEN conjunct1]
    by (simp add: parseArrayValue_ex_trims HasPrefix_def)
  have d: "parseArrayValue jsonStringArray ''  '' = Inr []"
    using parseArrayValue_shapes [of "''  ''" jsonStringArray, THEN conjunct2, THEN conjunct2,
        THEN conjunct2, THEN conjunct1]
    by (simp add: parseArrayValue_ex_trims)
  from a b c d show ?thesis by (intro conjI)
qed

lemma resolveEach_all_ok:
  assumes "map (\<lambda>v. snd (Resolve r env v)) vals = map Inr ss"
  shows "resolveEach r env vals tr acc
           = (tr @ concat (map (\<lambda>v. fst (Resolve r env v)) vals), Inr (acc @ ss))"
  using assms
proof (induction vals arbitrary: tr acc ss)
  case Nil
  then show ?case by simp
next
  case (Cons v vs)
  from Cons.prems obtain s ss' where ss: "ss = s # ss'"
    and s: "snd (Resolve r env v) = Inr s"
    and rest: "map (\<lambda>v. snd (Resolve r env v)) vs = map Inr ss'"
    by (cases ss) auto
  obtain t where R: "Resolve r env v = (t, Inr s)"
    using s by (cases "Resolve r env v") auto
  from Cons.IH [OF rest, of "tr @ t" "acc @ [s]"] R ss show ?case by simp
qed

lemma resolveEach_first_failure:
  assumes "map (\<lambda>v. snd (Resolve r env v)) ok = map Inr ss"
    and "snd (Resolve r env bad) = Inl e"
  shows "resolveEach r env (ok @ bad # rest) tr acc
           = (tr @ concat (map (\<lambda>v. fst (Resolve r env v)) (ok @ [bad])), Inl e)"
  using assms(1)
proof (induction ok arbitrary: tr acc ss)
  case Nil
  obtain t where "Resolve r env bad = (t, Inl e)"
    using assms(2) by (cases "Resolve r env bad") auto
  then show ?case by simp
next
  case (Cons v vs)
  from Cons.prems obtain s ss' where ss: "ss = s # ss'"
    and s: "snd (Resolve r env v) = Inr s"
    and rest: "map (\<lambda>v. snd (Resolve r env v)) vs = map Inr ss'"
    by (cases ss) auto
  obtain t where R: "Resolve r env v = (t, Inr s)"
    using s by (cases "Resolve r env v") auto
  from Cons.IH [OF rest, of "tr @ t" "acc @ [s]"] R show ?case by simp
qed

lemma ResolveSlice_single_reference:
  assumes "IsSecretReference v"
  shows "ResolveSlice u r env [v] =
           (fst (Resolve r env v),
            case snd (Resolve r env v) of Inl e \<Rightarrow> Inl e | Inr s \<Rightarrow> parseArrayValue u s)"
proof -
  from assms have ref: "IsSecretRef (Parse v)"
    by (simp add: IsSecretReference_def IsSecretRef_Parse)
  show ?thesis
    using assms ref
    by (auto simp: ResolveSlice_def Resolve_def Let_def split: option.splits sum.splits)
qed

text \<open>
  Claim C4. \<open>ResolveSlice\<close> on the empty list returns the empty list, without error and
  without any lookup. On a single element that is a managed reference it makes the
  lookups of \<open>Resolve\<close> and returns the error of \<open>Resolve\<close>, or the string that
  \<open>Resolve\<close> obtains (from whichever tier) passed through \<open>parseArrayValue\<close>. On every
  other input it resolves the elements one by one with \<open>Resolve\<close>: if all succeed the
  result is the list of their values in order; otherwise the error of the first element
  that fails is returned, and no element after it is looked up.
\<close>

theorem ResolveSlice_cases:
  "ResolveSlice u r env [] = ([], Inr [])
   \<and> (IsSecretReference v \<longrightarrow>
        ResolveSlice u r env [v] =
          (fst (Resolve r env v),
           case snd (Resolve r env v) of Inl e \<Rightarrow> Inl e | Inr s \<Rightarrow> parseArrayValue u s))
   \<and> (vals \<noteq> [] \<and> \<not> (length vals = 1 \<and> IsSecretReference (hd vals)) \<longrightarrow>
        (\<forall>ss. map (\<lambda>v. snd (Resolve r env v)) vals = map Inr ss \<longrightarrow>
           ResolveSlice u r env vals
             = (concat (map (\<lambda>v. fst (Resolve r env v)) vals), Inr ss))
        \<and> (\<forall>ok bad rest ss e.
             vals = ok @ bad # rest
             \<and> map (\<lambda>v. snd (Resolve r env v)) ok = map Inr ss
             \<and> snd (Resolve r env bad) = Inl e \<longrightarrow>
           ResolveSlice u r env vals
             = (concat (map (\<lambda>v. fst (Resolve r env v)) (ok @ [bad])), Inl e)))"
proof (intro conjI impI allI)
  show "ResolveSlice u r env [] = ([], Inr [])"
    by (simp add: ResolveSlice_def)
next
  assume "IsSecretReference v"
  then show "ResolveSlice u r env [v] =
          (fst (Resolve r env v),
           case snd (Resolve r env v) of Inl e \<Rightarrow> Inl e | Inr s \<Rightarrow> parseArrayValue u s)"
    by (rule ResolveSlice_single_reference)
next
  fix ss
  assume g: "vals \<noteq> [] \<and> \<not> (length vals = 1 \<and> IsSecretReference (hd vals))"
    and ok: "map (\<lambda>v. snd (Resolve r env v)) vals = map Inr ss"
  from g have "ResolveSlice u r env vals = resolveEach r env vals [] []"
    by (cases vals) (auto simp: ResolveSlice_def)
  with resolveEach_all_ok [OF ok, of "[]" "[]"]
  show "ResolveSlice u r env vals
          = (concat (map (\<lambda>v. fst (Resolve r env v)) vals), Inr ss)"
    by simp
next
  fix ok bad rest ss e
  assume g: "vals \<noteq> [] \<and> \<not> (length vals = 1 \<and> IsSecretReference (hd vals))"
    and h: "vals = ok @ bad # rest
             \<and> map (\<lambda>v. snd (Resolve r env v)) ok = map Inr ss
             \<and> snd (Resolve r env bad) = Inl e"
  from g have "ResolveSlice u r env vals = resolveEach r env vals [] []"
    by (cases vals) (auto simp: ResolveSlice_def)
  with h resolveEach_first_failure [of r env ok ss bad e rest "[]" "[]"]
  show "ResolveSlice u r env vals
          = (concat (map (\<lambda>v. fst (Resolve r env v)) (ok @ [bad])), Inl e)"
    by simp
qed

lemma ResolveSlice_ex_env:
  "Resolve (NewResolver None []) [''K1'' \<mapsto> ''a'', ''K2'' \<mapsto> ''b,c''] ''sm://K1''
     = ([LookupEnv ''K1''], Inr ''a'')"
  "Resolve (NewResolver None []) [''K1'' \<mapsto> ''a'', ''K2'' \<mapsto> ''b,c''] ''sm://K2''
     = ([LookupEnv ''K2''], Inr ''b,c'')"
  "Resolve (NewResolver None []) [''K1'' \<mapsto> ''a'', ''K2'' \<mapsto> ''b,c''] ''sm://MISSING''
     = ([LookupEnv ''MISSING''], Inl (SecretNotFoundError ''MISSING''))"
  "Resolve (NewResolver None []) [''K1'' \<mapsto> ''a'', ''K2'' \<mapsto> ''b,c''] ''x,y''
     = ([], Inr ''x,y'')"
  by code_simp+

lemma ResolveSlice_ex_refs:
  "IsSecretReference ''sm://K2''" "\<not> IsSecretReference ''x,y''"
  by code_simp+

lemma ResolveSlice_ex_array: "parseArrayValue jsonStringArray ''b,c'' = Inr [''b'', ''c'']"
  by code_simp

theorem ResolveSlice_cases_witness:
  "ResolveSlice jsonStringArray (NewResolver None [])
      [''K1'' \<mapsto> ''a'', ''K2'' \<mapsto> ''b,c''] [] = ([], Inr [])
   \<and> ResolveSlice jsonStringArray (NewResolver None [])
      [''K1'' \<mapsto> ''a'', ''K2'' \<mapsto> ''b,c''] [''sm://K2'']
        = ([LookupEnv ''K2''], Inr [''b'', ''c''])
   \<and> ResolveSlice jsonStringArray (NewResolver None [])
      [''K1'' \<mapsto> ''a'', ''K2'' \<mapsto> ''b,c''] [''x,y'']
        = ([], Inr [''x,y''])
   \<and> ResolveSlice jsonStringArray (NewResolver None [])
      [''K1'' \<mapsto> ''a'', ''K2'' \<mapsto> ''b,c''] [''sm://K1'', ''sm://K2'']
        = ([LookupEnv ''K1'', LookupEnv ''K2''], Inr [''a'', ''b,c''])
   \<and> ResolveSlice jsonStringArray (NewResolver None [])
      [''K1'' \<mapsto> ''a'', ''K2'' \<mapsto> ''b,c''] [''sm://K1'', ''sm://MISSING'', ''sm://K2'']
        = ([LookupEnv ''K1'', LookupEnv ''MISSING''], Inl (SecretNotFoundError ''MISSING''))"
proof -
  let ?r = "NewResolver None []"
  let ?e = "[''K1'' \<mapsto> ''a'', ''K2'' \<mapsto> ''b,c'']"
  note ex = ResolveSlice_ex_env
  have a: "ResolveSlice jsonStringArray ?r ?e [] = ([], Inr [])"
    using ResolveSlice_cases [of jsonStringArray ?r ?e "[]" "[]", THEN conjunct1] .
  have b: "ResolveSlice jsonStringArray ?r ?e [''sm://K2'']
             = ([LookupEnv ''K2''], Inr [''b'', ''c''])"
    using ResolveSlice_cases [of jsonStringArray ?r ?e "''sm://K2''" "[]", THEN conjunct2,
        THEN conjunct1, rule_format, OF ResolveSlice_ex_refs(1)]
    by (simp add: ex ResolveSlice_ex_array)
  have g1: "[''x,y''] \<noteq> [] \<and> \<not> (length [''x,y''] = 1 \<and> IsSecretReference (hd [''x,y'']))"
    using ResolveSlice_ex_refs(2) by simp
  have c: "ResolveSlice jsonStringArray ?r ?e [''x,y''] = ([], Inr [''x,y''])"
    using ResolveSlice_cases [of jsonStringArray ?r ?e "[]" "[''x,y'']", THEN conjunct2,
        THEN conjunct2, rule_format, OF g1, THEN conjunct1, rule_format, of "[''x,y'']"]
    by (simp add: ex)
  have g2: "[''sm://K1'', ''sm://K2''] \<noteq> []
            \<and> \<not> (length [''sm://K1'', ''sm://K2''] = 1
                   \<and> IsSecretReference (hd [''sm://K1'', ''sm://K2'']))"
    by simp
  have d: "ResolveSlice jsonStringArray ?r ?e [''sm://K1'', ''sm://K2'']
             = ([LookupEnv ''K1'', LookupEnv ''K2''], Inr [''a'', ''b,c''])"
    using ResolveSlice_cases [of jsonStringArray ?r ?e "[]" "[''sm://K1'', ''sm://K2'']",
        THEN conjunct2, THEN conjunct2, rule_format, OF g2, THEN conjunct1, rule_format,
        of "[''a'', ''b,c'']"]
    by (simp add: ex)
  have g3: "[''sm://K1'', ''sm://MISSING'', ''sm://K2''] \<noteq> []
            \<and> \<not> (length [''sm://K1'', ''sm://MISSING'', ''sm://K2''] = 1
                   \<and> IsSecretReference (hd [''sm://K1'', ''sm://MISSING'', ''sm://K2'']))"
    by simp
  have e: "ResolveSlice jsonStringArray ?r ?e [''sm://K1'', ''sm://MISSING'', ''sm://K2'']
        = ([LookupEnv ''K1'', LookupEnv ''MISSING''], Inl (SecretNotFoundError ''MISSING''))"
    using ResolveSlice_cases [of jsonStringArray ?r ?e "[]"
        "[''sm://K1'', ''sm://MISSING'', ''sm://K2'']",
        THEN conjunct2, THEN conjunct2, rule_format, OF g3, THEN conjunct2, rule_format,
        of "[''sm://K1'']" "''sm://MISSING''" "[''sm://K2'']" "[''a'']"
           "SecretNotFoundError ''MISSING''"]
    by (simp add: ex)
  from a b c d e show ?thesis by (intro conjI)
qed

section \<open>Properties of the loader\<close>

lemma loadStruct_Cons:
  "loadStruct lib r env ((ft, v) # rest) =
     (if failsRequired lib r env ft
      then ((ft, v) # rest,
            Some (RequiredFieldError (Name ft) (secretName (parseTag (gsmTag ft)))))
      else (case loadStruct lib r env rest of
              (rest', e) \<Rightarrow> (fieldAfter lib r env (ft, v) # rest', e)))"
  by (auto simp: failsRequired_def fieldAfter_def fieldResult_def processed_def Let_def
      split: sum.splits prod.splits)









section \<open>Integer fields\<close>

lemma decimal_foldl_mono:
  "a \<le> foldl (\<lambda>a c. a * 10 + ((of_char c :: nat) - 48)) a cs"
proof (induction cs arbitrary: a)
  case Nil
  show ?case by simp
next
  case (Cons c cs)
  have "a \<le> a * 10 + ((of_char c :: nat) - 48)" by simp
  also have "\<dots> \<le> foldl (\<lambda>a c. a * 10 + ((of_char c :: nat) - 48))
                      (a * 10 + ((of_char c :: nat) - 48)) cs"
    by (rule Cons.IH)
  finally show ?case by simp
qed

lemma parseDigits_digits:
  assumes "\<forall>c \<in> set ds. isDigit c" "n \<le> 2 ^ 64 - 1"
  shows "parseDigits n ds =
           (if foldl (\<lambda>a c. a * 10 + ((of_char c :: nat) - 48)) n ds \<le> 2 ^ 64 - 1
            then Inr (foldl (\<lambda>a c. a * 10 + ((of_char c :: nat) - 48)) n ds)
            else Inl ErrRange)"
  using assms
proof (induction ds arbitrary: n)
  case Nil
  then show ?case by simp
next
  case (Cons c cs)
  let ?n1 = "n * 10 + ((of_char c :: nat) - 48)"
  from Cons.prems have d: "isDigit c" and rest: "\<forall>c \<in> set cs. isDigit c" by simp_all
  show ?case
  proof (cases "?n1 \<le> 2 ^ 64 - 1")
    case True
    from Cons.IH [OF rest True] d True show ?thesis by (simp add: Let_def)
  next
    case False
    have "?n1 \<le> foldl (\<lambda>a c. a * 10 + ((of_char c :: nat) - 48)) ?n1 cs"
      by (rule decimal_foldl_mono)
    with False have "\<not> foldl (\<lambda>a c. a * 10 + ((of_char c :: nat) - 48)) ?n1 cs \<le> 2 ^ 64 - 1"
      by linarith
    with d False show ?thesis by (simp add: Let_def)
  qed
qed

lemma parseDigits_not_digits:
  assumes "\<not> (\<forall>c \<in> set ds. isDigit c)"
  shows "isl (parseDigits n ds)"
  using assms
proof (induction ds arbitrary: n)
  case Nil
  then show ?case by simp
next
  case (Cons c cs)
  then show ?case by (auto simp: Let_def)
qed

lemma ParseUint_digits:
  assumes "allDigits ds"
  shows "ParseUint ds =
           (if decimalValue ds < 2 ^ 64 then Inr (decimalValue ds) else Inl ErrRange)"
proof -
  from assms have a: "\<forall>c \<in> set ds. isDigit c" and ne: "ds \<noteq> []"
    by (simp_all add: allDigits_def)
  have "(decimalValue ds \<le> 2 ^ 64 - 1) = (decimalValue ds < 2 ^ 64)" by auto
  with parseDigits_digits [OF a, of 0] ne show ?thesis
    by (simp add: ParseUint_def decimalValue_def)
qed

lemma ParseUint_not_digits:
  assumes "\<not> allDigits s"
  shows "isl (ParseUint s)"
  using assms parseDigits_not_digits [of s 0]
  by (auto simp: ParseUint_def allDigits_def)

lemma isDigit_sign: "\<not> isDigit CHR ''+''" "\<not> isDigit CHR ''-''"
  by (simp_all add: isDigit_def)

lemma allDigits_hd:
  assumes "allDigits ds"
  shows "ds \<noteq> []" "hd ds \<noteq> CHR ''+''" "hd ds \<noteq> CHR ''-''"
proof -
  from assms show ne: "ds \<noteq> []" by (simp add: allDigits_def)
  with assms have "isDigit (hd ds)" by (cases ds) (auto simp: allDigits_def)
  with isDigit_sign show "hd ds \<noteq> CHR ''+''" "hd ds \<noteq> CHR ''-''" by auto
qed

lemma ParseInt_digits:
  assumes "allDigits ds"
  shows "ParseInt ds =
           (if decimalValue ds < 2 ^ 63 then Inr (int (decimalValue ds)) else Inl ErrRange)"
    and "ParseInt (''+'' @ ds) =
           (if decimalValue ds < 2 ^ 63 then Inr (int (decimalValue ds)) else Inl ErrRange)"
    and "ParseInt (''-'' @ ds) =
           (if decimalValue ds \<le> 2 ^ 63 then Inr (- int (decimalValue ds)) else Inl ErrRange)"
proof -
  note h = allDigits_hd [OF assms]
  note u = ParseUint_digits [OF assms]
  have lt: "decimalValue ds < 2 ^ 63 \<Longrightarrow> decimalValue ds < 2 ^ 64"
    by (rule less_trans [of _ "2 ^ 63"]) simp_all
  have le: "decimalValue ds \<le> 2 ^ 63 \<Longrightarrow> decimalValue ds < 2 ^ 64"
    by (rule le_less_trans [of _ "2 ^ 63"]) simp_all
  show "ParseInt ds =
           (if decimalValue ds < 2 ^ 63 then Inr (int (decimalValue ds)) else Inl ErrRange)"
    using h u lt by (auto simp: ParseInt_def Let_def not_less)
  show "ParseInt (''+'' @ ds) =
           (if decimalValue ds < 2 ^ 63 then Inr (int (decimalValue ds)) else Inl ErrRange)"
    using u lt by (auto simp: ParseInt_def Let_def not_less)
  show "ParseInt (''-'' @ ds) =
           (if decimalValue ds \<le> 2 ^ 63 then Inr (- int (decimalValue ds)) else Inl ErrRange)"
    using u le by (auto simp: ParseInt_def Let_def not_less not_le)
qed

lemma ParseInt_not_decimal:
  assumes "\<not> allDigits s" "\<forall>ds. allDigits ds \<longrightarrow> s \<noteq> ''+'' @ ds \<and> s \<noteq> ''-'' @ ds"
  shows "isl (ParseInt s)"
proof (cases s)
  case Nil
  then show ?thesis by (simp add: ParseInt_def)
next
  case (Cons c cs)
  show ?thesis
  proof (cases "c = CHR ''+'' \<or> c = CHR ''-''")
    case True
    with assms(2) Cons have "\<not> allDigits cs" by auto
    from ParseUint_not_digits [OF this] True Cons show ?thesis
      by (auto simp: ParseInt_def Let_def isl_def)
  next
    case False
    from ParseUint_not_digits [OF assms(1)] False Cons show ?thesis
      by (auto simp: ParseInt_def Let_def isl_def)
  qed
qed

lemma SetInt_in_range:
  assumes "- (2 ^ (bitsOf k - 1)) \<le> n" "n < 2 ^ (bitsOf k - 1)"
  shows "SetInt k n = VInt n"
proof -
  have b: "0 < bitsOf k" by (cases k) simp_all
  then have p: "(2::int) ^ bitsOf k = 2 * 2 ^ (bitsOf k - 1)"
    by (cases "bitsOf k") simp_all
  from assms have "0 \<le> n + 2 ^ (bitsOf k - 1)" "n + 2 ^ (bitsOf k - 1) < 2 ^ bitsOf k"
    by (simp_all add: p)
  then have "(n + 2 ^ (bitsOf k - 1)) mod 2 ^ bitsOf k = n + 2 ^ (bitsOf k - 1)"
    by simp
  then show ?thesis by (simp add: SetInt_def)
qed

lemma SetUint_in_range: "m < 2 ^ bitsOf k \<Longrightarrow> SetUint k m = VUint m"
  by (simp add: SetUint_def)

lemma loadStruct_single_failure:
  assumes "processed ft" "isl (fieldResult lib r env ft)"
  shows "loadStruct lib r env [(ft, v)] =
           ([(ft, v)],
            if required (parseTag (gsmTag ft))
            then Some (RequiredFieldError (Name ft) (secretName (parseTag (gsmTag ft))))
            else None)"
  using assms
  by (auto simp: loadStruct_Cons failsRequired_def fieldAfter_def isl_def
      simp del: loadStruct.simps(2))

lemma signed_not_string: "isSignedKind k \<Longrightarrow> k \<noteq> KString"
  by (cases k) simp_all

lemma unsigned_not_signed: "isUnsignedKind k \<Longrightarrow> k \<noteq> KString \<and> \<not> isSignedKind k"
  by (cases k) simp_all

text \<open>
  Claim C6, as the code has it. For a field of signed or unsigned integer kind,
  \<open>setField\<close> resolves the reference as a scalar and parses the string with
  \<open>ParseInt\<close> or \<open>ParseUint\<close> in base 10 at 64 bits, whatever the width of the field;
  a failure of the parse is returned as an error (wrapped with the name of the field),
  never a crash. A non-empty string of decimal digits, for \<open>ParseInt\<close> after an
  optional sign, parses to the number it denotes if that number fits 64 bits, and is a
  range error otherwise; every other string is a parse failure. A parsed value that
  fits the width of the field is stored unchanged. A field whose \<open>setField\<close> fails is
  left as it was, and \<open>loadStruct\<close> returns \<open>RequiredFieldError\<close> if the tag has
  \<open>required\<close> and goes on otherwise.
\<close>

theorem integers_parsed_at_64_bits:
  "(isSignedKind (kind ft) \<longrightarrow>
      setField lib r env ft ref =
        (case snd (Resolve r env ref) of
           Inl e \<Rightarrow> Inl e
         | Inr v \<Rightarrow>
             (case ParseInt v of
                Inl e \<Rightarrow> Inl (Errorf (''failed to parse int for field '' @ Name ft) e)
              | Inr n \<Rightarrow> Inr (SetInt (kind ft) n))))
   \<and> (isUnsignedKind (kind ft) \<longrightarrow>
      setField lib r env ft ref =
        (case snd (Resolve r env ref) of
           Inl e \<Rightarrow> Inl e
         | Inr v \<Rightarrow>
             (case ParseUint v of
                Inl e \<Rightarrow> Inl (Errorf (''failed to parse uint for field '' @ Name ft) e)
              | Inr n \<Rightarrow> Inr (SetUint (kind ft) n))))
   \<and> (allDigits ds \<longrightarrow>
        ParseInt ds =
          (if decimalValue ds < 2 ^ 63 then Inr (int (decimalValue ds)) else Inl ErrRange)
        \<and> ParseInt (''+'' @ ds) =
          (if decimalValue ds < 2 ^ 63 then Inr (int (decimalValue ds)) else Inl ErrRange)
        \<and> ParseInt (''-'' @ ds) =
          (if decimalValue ds \<le> 2 ^ 63 then Inr (- int (decimalValue ds)) else Inl ErrRange)
        \<and> ParseUint ds =
          (if decimalValue ds < 2 ^ 64 then Inr (decimalValue ds) else Inl ErrRange))
   \<and> (\<not> allDigits s \<longrightarrow> isl (ParseUint s))
   \<and> (\<not> allDigits s \<and> (\<forall>ds. allDigits ds \<longrightarrow> s \<noteq> ''+'' @ ds \<and> s \<noteq> ''-'' @ ds) \<longrightarrow>
        isl (ParseInt s))
   \<and> (- (2 ^ (bitsOf k - 1)) \<le> n \<and> n < 2 ^ (bitsOf k - 1) \<longrightarrow>
        (SetInt k n :: 'f Value) = VInt n)
   \<and> (m < 2 ^ bitsOf k \<longrightarrow> (SetUint k m :: 'f Value) = VUint m)
   \<and> (processed ft \<and> isl (fieldResult lib r env ft) \<longrightarrow>
        loadStruct lib r env [(ft, v0)] =
          ([(ft, v0)],
           if required (parseTag (gsmTag ft))
           then Some (RequiredFieldError (Name ft) (secretName (parseTag (gsmTag ft))))
           else None))"
    (is "?A \<and> ?B \<and> ?C \<and> ?D \<and> ?E \<and> ?F \<and> ?G \<and> ?H")
proof -
  have A: ?A
    using signed_not_string [of "kind ft"] by (auto simp: setField_def Let_def)
  have B: ?B
    using unsigned_not_signed [of "kind ft"] by (auto simp: setField_def Let_def)
  have C: ?C
    using ParseInt_digits [of ds] ParseUint_digits [of ds] by blast
  have D: ?D by (simp add: ParseUint_not_digits)
  have E: ?E using ParseInt_not_decimal [of s] by blast
  have F: ?F using SetInt_in_range [of k n] by blast
  have G: ?G by (simp add: SetUint_in_range)
  have H: ?H using loadStruct_single_failure [of ft lib r env v0] by blast
  from A B C D E F G H show ?thesis by (intro conjI)
qed

lemma example_small_facts:
  "processed exampleSmall"
  "required (parseTag (gsmTag exampleSmall))"
  "refStringOf (parseTag (gsmTag exampleSmall)) = ''sm://SMALL||300''"
  "snd (Resolve (resolver exampleLoader) exampleEnv ''sm://SMALL||300'') = Inr ''300''"
  "kind exampleSmall = KInt8"
  by code_simp+

lemma ParseInt_300: "ParseInt ''300'' = Inr 300"
  by (simp add: ParseInt_def ParseUint_def isDigit_def)

lemma SetInt_int8_300: "(SetInt KInt8 300 :: unit Value) = VInt 44"
  by (simp add: SetInt_def)

text \<open>
  A required \<open>int8\<close> field whose value resolves to \<open>300\<close>: the parse at 64 bits
  succeeds, \<open>Load\<close> returns no error, and the field holds the low 8 bits, 44.
\<close>

theorem int8_out_of_range_counterexample:
  "Load exampleLib exampleLoader exampleEnv (PtrToStruct [(exampleSmall, VInt 0)])
     = (PtrToStruct [(exampleSmall, VInt 44)], None)"
proof -
  have "fieldResult exampleLib (resolver exampleLoader) exampleEnv exampleSmall
          = Inr (VInt 44)"
    by (simp add: fieldResult_def setField_def example_small_facts ParseInt_300
        SetInt_int8_300)
  then have "loadStruct exampleLib (resolver exampleLoader) exampleEnv [(exampleSmall, VInt 0)]
          = ([(exampleSmall, VInt 44)], None)"
    by (simp add: loadStruct_Cons failsRequired_def fieldAfter_def example_small_facts
        del: loadStruct.simps(2))
  then show ?thesis by (simp add: Load_def)
qed

lemma example_digits:
  "allDigits ''300''" "decimalValue ''300'' = 300"
  "allDigits ''9223372036854775808''"
  "decimalValue ''9223372036854775808'' = 9223372036854775808"
  "allDigits ''18446744073709551616''"
  "decimalValue ''18446744073709551616'' = 18446744073709551616"
  "\<not> allDigits ''not_a_number''"
  by (simp_all add: allDigits_def decimalValue_def isDigit_def)

lemma example_port_facts:
  "isSignedKind (kind examplePort)"
  "kind examplePort = KInt"
  "Name examplePort = ''Port''"
  "processed examplePort"
  "\<not> required (parseTag (gsmTag examplePort))"
  "refStringOf (parseTag (gsmTag examplePort)) = ''sm://PORT''"
  "snd (Resolve (resolver exampleLoader) exampleEnv ''sm://PORT'') = Inr ''not_a_number''"
  by code_simp+

theorem integers_parsed_at_64_bits_witness:
  "ParseInt ''300'' = Inr 300
   \<and> ParseInt ''+300'' = Inr 300
   \<and> ParseInt ''-300'' = Inr (- 300)
   \<and> ParseInt ''9223372036854775808'' = Inl ErrRange
   \<and> ParseInt ''-9223372036854775808'' = Inr (- 9223372036854775808)
   \<and> ParseUint ''18446744073709551616'' = Inl ErrRange
   \<and> isl (ParseInt ''not_a_number'')
   \<and> isl (ParseUint ''not_a_number'')
   \<and> (SetInt KInt8 100 :: unit Value) = VInt 100
   \<and> (SetUint KUint8 200 :: unit Value) = VUint 200
   \<and> isl (setField exampleLib (resolver exampleLoader) exampleEnv examplePort ''sm://PORT'')
   \<and> loadStruct exampleLib (resolver exampleLoader) exampleEnv [(examplePort, VInt 0)]
       = ([(examplePort, VInt 0)], None)"
proof -
  let ?r = "resolver exampleLoader"
  note t = integers_parsed_at_64_bits
  note d = example_digits
  note c300 = t [where ds = "''300''", THEN conjunct2, THEN conjunct2, THEN conjunct1,
      THEN mp, OF d(1)]
  note cmax = t [where ds = "''9223372036854775808''", THEN conjunct2, THEN conjunct2,
      THEN conjunct1, THEN mp, OF d(3)]
  note cu = t [where ds = "''18446744073709551616''", THEN conjunct2, THEN conjunct2,
      THEN conjunct1, THEN mp, OF d(5)]
  have a1: "ParseInt ''300'' = Inr 300" using c300 by (simp add: d)
  have a2: "ParseInt ''+300'' = Inr 300" using c300 by (simp add: d)
  have a3: "ParseInt ''-300'' = Inr (- 300)" using c300 by (simp add: d)
  have a4: "ParseInt ''9223372036854775808'' = Inl ErrRange" using cmax by (simp add: d)
  have a5: "ParseInt ''-9223372036854775808'' = Inr (- 9223372036854775808)"
    using cmax by (simp add: d)
  have a6: "ParseUint ''18446744073709551616'' = Inl ErrRange" using cu by (simp add: d)
  have nd: "\<not> allDigits ''not_a_number''
            \<and> (\<forall>ds. allDigits ds \<longrightarrow>
                  ''not_a_number'' \<noteq> ''+'' @ ds \<and> ''not_a_number'' \<noteq> ''-'' @ ds)"
    by (simp add: d)
  have a7: "isl (ParseInt ''not_a_number'')"
    using t [where s = "''not_a_number''", THEN conjunct2, THEN conjunct2, THEN conjunct2,
        THEN conjunct2, THEN conjunct1, THEN mp, OF nd] .
  have a8: "isl (ParseUint ''not_a_number'')"
    using t [where s = "''not_a_number''", THEN conjunct2, THEN conjunct2, THEN conjunct2,
        THEN conjunct1, THEN mp, OF d(7)] .
  have a9: "(SetInt KInt8 100 :: unit Value) = VInt 100"
    using t [where k = KInt8 and n = 100 and 'f = unit, THEN conjunct2, THEN conjunct2,
        THEN conjunct2, THEN conjunct2, THEN conjunct2, THEN conjunct1]
    by simp
  have a10: "(SetUint KUint8 200 :: unit Value) = VUint 200"
    using t [where k = KUint8 and m = 200 and 'f = unit, THEN conjunct2, THEN conjunct2,
        THEN conjunct2, THEN conjunct2, THEN conjunct2, THEN conjunct2, THEN conjunct1]
    by simp
  have a11: "isl (setField exampleLib ?r exampleEnv examplePort ''sm://PORT'')"
    using t [where ft = examplePort and lib = exampleLib and r = ?r and env = exampleEnv
        and ref = "''sm://PORT''", THEN conjunct1, THEN mp, OF example_port_facts(1)] a7
    by (auto simp: example_port_facts isl_def)
  then have f: "processed examplePort \<and> isl (fieldResult exampleLib ?r exampleEnv examplePort)"
    by (simp add: fieldResult_def example_port_facts)
  have a12: "loadStruct exampleLib ?r exampleEnv [(examplePort, VInt 0)]
               = ([(examplePort, VInt 0)], None)"
    using t [where ft = examplePort and lib = exampleLib and r = ?r and env = exampleEnv
        and ?v0.0 = "VInt 0", THEN conjunct2, THEN conjunct2, THEN conjunct2, THEN conjunct2,
        THEN conjunct2, THEN conjunct2, THEN conjunct2, THEN mp, OF f]
    by (simp add: example_port_facts)
  from a1 a2 a3 a4 a5 a6 a7 a8 a9 a10 a11 a12 show ?thesis by (intro conjI)
qed

end
